theory Spec2Isabelle
  imports Main
begin

section \<open>The ISO 9660 reader of \<open>library/bigip_software.py\<close>\<close>

text \<open>
  The class \<open>ISO9660\<close> reads one named file out of an ISO 9660 image. It is Python 2:
  a \<open>str\<close> is a byte string, modelled as a HOL \<open>string\<close> (a list of 8-bit
  characters), and integers are unbounded (\<open>int\<close>).

  Every method of the class reads and writes the fields of \<open>self\<close>; the model threads
  a record of those fields through each call and returns it also when the call raises,
  since an exception leaves the mutations made before it in place. The bytes of the file
  named by \<open>self._url\<close> are the parameter \<open>img\<close> of the functions that open the file.
\<close>

subsection \<open>Exceptions\<close>

datatype exc_arg = ArgPath "string list" | ArgName string

datatype error =
    ISO9660IOError exc_arg  \<comment> \<open>\<open>raise ISO9660IOError(path)\<close>: the path was not found\<close>
  | AssertionError          \<comment> \<open>a failed \<open>assert\<close>\<close>
  | StructError             \<comment> \<open>\<open>struct.error\<close>: \<open>struct.unpack\<close> on a string of the wrong length\<close>
  | IndexError              \<comment> \<open>list or string index out of range\<close>
  | KeyError                \<comment> \<open>missing dictionary key\<close>
  | TypeError               \<comment> \<open>subscript of \<open>None\<close>, missing constructor argument\<close>
  | ValueError              \<comment> \<open>calendar field out of range\<close>
  | AttributeError          \<comment> \<open>\<open>None.read\<close>\<close>
  | IOError                 \<comment> \<open>\<open>seek\<close> to a negative offset\<close>

subsection \<open>Python string methods\<close>

definition str_rstrip :: "char \<Rightarrow> string \<Rightarrow> string" where
  "str_rstrip c s = rev (dropWhile (\<lambda>x. x = c) (rev s))"

definition str_strip :: "char \<Rightarrow> string \<Rightarrow> string" where
  "str_strip c s = str_rstrip c (dropWhile (\<lambda>x. x = c) s)"

fun str_split :: "char \<Rightarrow> string \<Rightarrow> string list" where
  "str_split sep [] = [[]]"
| "str_split sep (c # cs) =
     (if c = sep then [] # str_split sep cs
      else (case str_split sep cs of
              [] \<Rightarrow> [[c]]
            | w # ws \<Rightarrow> (c # w) # ws))"

definition upper_char :: "char \<Rightarrow> char" where
  "upper_char c =
     (let n = (of_char c :: nat) in if 97 \<le> n \<and> n \<le> 122 then char_of (n - 32) else c)"

definition str_upper :: "string \<Rightarrow> string" where
  "str_upper s = map upper_char s"

subsection \<open>\<open>struct.unpack\<close> for the one-field formats the class uses\<close>

datatype endian = Little | Big

datatype code = Fmt_b | Fmt_B | Fmt_h | Fmt_H | Fmt_i | Fmt_I

fun calcsize :: "code \<Rightarrow> nat" where
  "calcsize Fmt_b = 1"
| "calcsize Fmt_B = 1"
| "calcsize Fmt_h = 2"
| "calcsize Fmt_H = 2"
| "calcsize Fmt_i = 4"
| "calcsize Fmt_I = 4"

fun is_signed :: "code \<Rightarrow> bool" where
  "is_signed Fmt_b = True"
| "is_signed Fmt_h = True"
| "is_signed Fmt_i = True"
| "is_signed c = False"

fun le_nat :: "string \<Rightarrow> nat" where
  "le_nat [] = 0"
| "le_nat (c # cs) = of_char c + 256 * le_nat cs"

definition bytes_nat :: "endian \<Rightarrow> string \<Rightarrow> nat" where
  "bytes_nat e bs = (case e of Little \<Rightarrow> le_nat bs | Big \<Rightarrow> le_nat (rev bs))"

definition decode_int :: "endian \<Rightarrow> code \<Rightarrow> string \<Rightarrow> int" where
  "decode_int e c bs =
     (let u = int (bytes_nat e bs) in
      if is_signed c \<and> 2 ^ (8 * calcsize c - 1) \<le> u then u - 2 ^ (8 * calcsize c) else u)"

definition struct_unpack :: "endian \<Rightarrow> code \<Rightarrow> string \<Rightarrow> error + int" where
  "struct_unpack e c bs =
     (if length bs \<noteq> calcsize c then Inl StructError else Inr (decode_int e c bs))"

subsection \<open>The calendar arithmetic of \<open>datetime\<close>\<close>

definition is_leap :: "int \<Rightarrow> bool" where
  "is_leap y = (y mod 4 = 0 \<and> (y mod 100 \<noteq> 0 \<or> y mod 400 = 0))"

definition days_in_month :: "int \<Rightarrow> int \<Rightarrow> int" where
  "days_in_month y m =
     (if m = 2 then (if is_leap y then 29 else 28)
      else if m = 4 \<or> m = 6 \<or> m = 9 \<or> m = 11 then 30 else 31)"

definition days_before_year :: "int \<Rightarrow> int" where
  "days_before_year y = (y - 1) * 365 + (y - 1) div 4 - (y - 1) div 100 + (y - 1) div 400"

definition days_before_month :: "int \<Rightarrow> int \<Rightarrow> int" where
  "days_before_month y m = sum_list (map (\<lambda>k. days_in_month y (int k)) [1 ..< nat m])"

definition ymd2ord :: "int \<Rightarrow> int \<Rightarrow> int \<Rightarrow> int" where
  "ymd2ord y m d = days_before_year y + days_before_month y m + d"

definition arg_or_zero :: "int list \<Rightarrow> nat \<Rightarrow> int" where
  "arg_or_zero t i = (if i < length t then t ! i else 0)"

text \<open>
  \<open>(datetime.datetime(*t) - datetime.datetime(1970, 1, 1)).total_seconds()\<close>. The
  constructor needs year, month and day (\<open>TypeError\<close> otherwise), takes hour, minute and
  second as 0 when absent, and raises \<open>ValueError\<close> on a field out of range.
\<close>

definition datetime_seconds :: "int list \<Rightarrow> error + int" where
  "datetime_seconds t =
     (if length t < 3 then Inl TypeError
      else
        let y = t ! 0; mo = t ! 1; d = t ! 2;
            h = arg_or_zero t 3; mi = arg_or_zero t 4; sec = arg_or_zero t 5
        in if \<not> (1 \<le> y \<and> y \<le> 9999) \<or> \<not> (1 \<le> mo \<and> mo \<le> 12)
              \<or> \<not> (1 \<le> d \<and> d \<le> days_in_month y mo)
              \<or> \<not> (0 \<le> h \<and> h \<le> 23) \<or> \<not> (0 \<le> mi \<and> mi \<le> 59)
              \<or> \<not> (0 \<le> sec \<and> sec \<le> 59)
           then Inl ValueError
           else Inr ((ymd2ord y mo d - ymd2ord 1970 1 1) * 86400 + h * 3600 + mi * 60 + sec))"

subsection \<open>The object\<close>

text \<open>
  A directory record is the dict \<open>d\<close> built by \<open>_unpack_record\<close>; a path-table entry
  is the dict \<open>p\<close> built by the constructor, with keys \<open>ex_loc\<close>, \<open>parent\<close> and
  \<open>name\<close>, to which \<open>_dir_record_by_table\<close> may add the key \<open>ex_len\<close>
  (\<open>pt_ex_len\<close> is \<open>None\<close> while the key is absent). The field \<open>datetime\<close> holds
  \<open>t_timestamp\<close>; the source goes on to render it in the local time zone of the
  process, which is outside this model.
\<close>

record dir_record =
  ex_loc :: int
  ex_len :: int
  datetime :: int
  flags :: int
  interleave_unit_size :: int
  interleave_gap_size :: int
  volume_sequence :: int
  name :: string

record path_entry =
  pt_ex_loc :: int
  pt_parent :: int
  pt_name :: string
  pt_ex_len :: "int option"

datatype pvd_value = PInt int | PStr string

text \<open>
  \<open>buff\<close> is \<open>self._buff\<close>: \<open>None\<close>, or a \<open>StringIO\<close> with its contents and its
  read position.
\<close>

record iso =
  buff :: "(string \<times> nat) option"
  root :: "dir_record option"
  pvd :: "string \<rightharpoonup> pvd_value"
  paths :: "path_entry list"

type_synonym 'a action = "iso \<Rightarrow> (error + 'a) \<times> iso"

definition ret :: "'a \<Rightarrow> 'a action" where
  "ret x = (\<lambda>s. (Inr x, s))"

definition raise_exc :: "error \<Rightarrow> 'a action" where
  "raise_exc e = (\<lambda>s. (Inl e, s))"

definition bnd :: "'a action \<Rightarrow> ('a \<Rightarrow> 'b action) \<Rightarrow> 'b action" where
  "bnd f g = (\<lambda>s. case f s of (Inl e, s') \<Rightarrow> (Inl e, s') | (Inr x, s') \<Rightarrow> g x s')"

definition SECTOR_SIZE :: int where
  "SECTOR_SIZE = 2048"

subsection \<open>Reading the backing file and the buffer\<close>

text \<open>
  \<open>_get_sector_file\<close>: \<open>seek\<close> refuses a negative offset; \<open>read\<close> returns the bytes
  that are there, up to \<open>len\<close> of them (all of them for a negative \<open>len\<close>).
\<close>

definition get_sector_file :: "string \<Rightarrow> int \<Rightarrow> int \<Rightarrow> unit action" where
  "get_sector_file img sector len =
     (\<lambda>s. if sector * SECTOR_SIZE < 0 then (Inl IOError, s)
          else
            let rest = drop (nat (sector * SECTOR_SIZE)) img;
                data = (if len < 0 then rest else take (nat len) rest)
            in (Inr (), s\<lparr>buff := Some (data, 0)\<rparr>))"

text \<open>\<open>self._buff.read(l)\<close>\<close>

definition buff_read :: "int \<Rightarrow> string action" where
  "buff_read l =
     (\<lambda>s. case buff s of
            None \<Rightarrow> (Inl AttributeError, s)
          | Some (d, p) \<Rightarrow>
              let r = (if l < 0 then drop p d else take (nat l) (drop p d))
              in (Inr r, s\<lparr>buff := Some (d, p + length r)\<rparr>))"

definition unpack_raw :: "int \<Rightarrow> string action" where
  "unpack_raw l = buff_read l"

definition unpack_string :: "int \<Rightarrow> string action" where
  "unpack_string l = bnd (buff_read l) (\<lambda>x. ret (str_rstrip (CHR '' '') x))"

text \<open>
  \<open>_unpack(st)\<close>: a format without a byte-order character is little-endian.
\<close>

definition unpack :: "endian option \<Rightarrow> code \<Rightarrow> int action" where
  "unpack e c =
     (let e' = (case e of None \<Rightarrow> Little | Some x \<Rightarrow> x)
      in bnd (buff_read (int (calcsize c)))
           (\<lambda>bs. case struct_unpack e' c bs of Inl err \<Rightarrow> raise_exc err | Inr v \<Rightarrow> ret v))"

definition unpack_both :: "code \<Rightarrow> int action" where
  "unpack_both st =
     bnd (unpack (Some Little) st) (\<lambda>a.
     bnd (unpack (Some Big) st) (\<lambda>b.
     if a = b then ret a else raise_exc AssertionError))"

definition unpack_vd_datetime :: "string action" where
  "unpack_vd_datetime = unpack_raw 17"

definition unpack_dir_datetime :: "int action" where
  "unpack_dir_datetime =
     bnd (unpack_raw 7) (\<lambda>date.
     if date = [] then raise_exc IndexError
     else
       let t = map (\<lambda>i. decode_int Little Fmt_B [i]) (butlast date)
                 @ [decode_int Little Fmt_b [last date]];
           t = t[0 := t ! 0 + 1900];
           t_offset = last t * 15 * 60;
           t = butlast t
       in case datetime_seconds t of
            Inl err \<Rightarrow> raise_exc err
          | Inr secs \<Rightarrow> ret (secs - t_offset))"

subsection \<open>Directory records\<close>

definition unpack_record :: "int \<Rightarrow> (int \<times> dir_record option) action" where
  "unpack_record read =
     bnd (unpack None Fmt_B) (\<lambda>l0.
     if l0 = 0 then ret (read + 1, None)
     else
     bnd (unpack None Fmt_B) (\<lambda>l1.
     bnd (unpack_both Fmt_I) (\<lambda>d_ex_loc.
     bnd (unpack_both Fmt_I) (\<lambda>d_ex_len.
     bnd unpack_dir_datetime (\<lambda>d_datetime.
     bnd (unpack None Fmt_B) (\<lambda>d_flags.
     bnd (unpack None Fmt_B) (\<lambda>d_unit.
     bnd (unpack None Fmt_B) (\<lambda>d_gap.
     bnd (unpack_both Fmt_h) (\<lambda>d_seq.
     bnd (unpack None Fmt_B) (\<lambda>l2.
     bnd (unpack_string l2) (\<lambda>nm.
     let nm0 = hd (str_split (CHR '';'') nm);
         d_name = (if nm0 = [CHR 0x00] then [] else nm0)
     in
     bnd (if l2 mod 2 = 0 then bnd (unpack None Fmt_B) (\<lambda>_. ret ()) else ret ()) (\<lambda>_.
     let t = 34 + l2 - (l2 mod 2);
         e = l0 - t
     in
     bnd (if e > 0 then bnd (unpack_raw e) (\<lambda>_. ret ()) else ret ()) (\<lambda>_.
     ret (read + l0,
          Some \<lparr>ex_loc = d_ex_loc, ex_len = d_ex_len, datetime = d_datetime,
                flags = d_flags, interleave_unit_size = d_unit,
                interleave_gap_size = d_gap, volume_sequence = d_seq,
                name = d_name\<rparr>))))))))))))))"

text \<open>What a successful decode says about the running count \<open>read\<close>.\<close>

lemma bnd_InrE:
  assumes "bnd f g s = (Inr y, s')"
  obtains x s1 where "f s = (Inr x, s1)" and "g x s1 = (Inr y, s')"
  using assms by (auto simp: bnd_def split: prod.splits sum.splits)

lemma unpack_B_range:
  assumes "unpack e Fmt_B s = (Inr v, s')"
  shows "0 \<le> v \<and> v < 256"
proof -
  from assms obtain bs where len: "length bs = 1"
    and v: "v = decode_int (case e of None \<Rightarrow> Little | Some x \<Rightarrow> x) Fmt_B bs"
    by (auto simp: unpack_def Let_def struct_unpack_def ret_def raise_exc_def
             elim!: bnd_InrE split: if_splits)
  from len obtain c where "bs = [c]" by (cases bs) auto
  then show ?thesis using v
    by (simp add: decode_int_def bytes_nat_def split: endian.splits)
qed

lemma unpack_record_None:
  assumes "unpack_record read s = (Inr (r, None), s')"
  shows "r = read + 1"
  using assms unfolding unpack_record_def
  by (auto elim!: bnd_InrE simp: ret_def Let_def split: if_splits)

lemma unpack_record_Some:
  assumes "unpack_record read s = (Inr (r, Some d), s')"
  shows "read < r"
proof -
  from assms obtain l0 s1 where u: "unpack None Fmt_B s = (Inr l0, s1)"
    and rest: "l0 \<noteq> 0" "r = read + l0"
    unfolding unpack_record_def
    by (auto elim!: bnd_InrE simp: ret_def Let_def split: if_splits)
  from unpack_B_range [OF u] rest show ?thesis by simp
qed

subsection \<open>The children of a directory\<close>

text \<open>
  The argument \<open>d\<close> of \<open>_unpack_dir_children\<close> is whatever the caller resolved as the
  parent directory: \<open>None\<close>, a directory record or a path-table entry. Only its key
  \<open>ex_loc\<close> is read.
\<close>

datatype dir_ref = IsNone | IsRecord dir_record | IsEntry path_entry

fun ref_ex_loc :: "dir_ref \<Rightarrow> error + int" where
  "ref_ex_loc IsNone = Inl TypeError"
| "ref_ex_loc (IsRecord r) = Inr (ex_loc r)"
| "ref_ex_loc (IsEntry p) = Inr (pt_ex_loc p)"

text \<open>
  \<open>_unpack_dir_children\<close> is a generator. Its local variables \<open>sector\<close>, \<open>read\<close> and
  \<open>r_self\<close> are the state of the generator; \<open>unpack_dir_children_start\<close> is the code
  before the loop, and \<open>unpack_dir_children_next\<close> runs the loop up to the next
  \<open>yield\<close> (\<open>Some\<close> of the record and the generator's state) or to its end (\<open>None\<close>).
\<close>

type_synonym gen = "int \<times> int \<times> dir_record option"

definition unpack_dir_children_start :: "string \<Rightarrow> dir_ref \<Rightarrow> gen action" where
  "unpack_dir_children_start img d =
     (case ref_ex_loc d of
        Inl err \<Rightarrow> raise_exc err
      | Inr sector \<Rightarrow>
          bnd (get_sector_file img sector 2048) (\<lambda>_.
          bnd (unpack_record 0) (\<lambda>(read, r_self).
          bnd (unpack_record read) (\<lambda>(read, r_parent).
          ret (sector, read, r_self)))))"

function unpack_dir_children_next :: "string \<Rightarrow> gen \<Rightarrow> (dir_record \<times> gen) option action" where
  "unpack_dir_children_next img (sector, read, r_self) s =
     (case r_self of
        None \<Rightarrow> (Inl TypeError, s)
      | Some rs \<Rightarrow>
          if \<not> read < ex_len rs then (Inr None, s)
          else
            (case (if read mod 2048 = 0 then get_sector_file img (sector + 1) 2048 s
                   else (Inr (), s)) of
               (Inl err, s1) \<Rightarrow> (Inl err, s1)
             | (Inr _, s1) \<Rightarrow>
                 let sector = (if read mod 2048 = 0 then sector + 1 else sector) in
                 (case unpack_record read s1 of
                    (Inl err, s2) \<Rightarrow> (Inl err, s2)
                  | (Inr (read, None), s2) \<Rightarrow>
                      let to_read = 2048 - (read mod 2048) in
                      (case unpack_raw to_read s2 of
                         (Inl err, s3) \<Rightarrow> (Inl err, s3)
                       | (Inr _, s3) \<Rightarrow>
                           unpack_dir_children_next img (sector, read + to_read, r_self) s3)
                  | (Inr (read, Some data), s2) \<Rightarrow>
                      (Inr (Some (data, (sector, read, r_self))), s2))))"
  by pat_completeness auto
termination
  apply (relation "measure (\<lambda>(img, (sector, read, r_self), s).
                   case r_self of None \<Rightarrow> 0 | Some rs \<Rightarrow> nat (ex_len rs - read))")
   apply simp
  apply (auto dest!: unpack_record_None [OF sym])
  done

lemma unpack_dir_children_next_yield:
  assumes "unpack_dir_children_next img (sector, read, r_self) s
             = (Inr (Some (d, (sector', read', r_self'))), s')"
  shows "r_self' = r_self \<and> read < read' \<and> (\<exists>rs. r_self = Some rs \<and> read < ex_len rs)"
  using assms
proof (induction img "(sector, read, r_self)" s arbitrary: sector read
         rule: unpack_dir_children_next.induct)
  case (1 img sector read s)
  from "1.prems" obtain rs where rs: "r_self = Some rs" and lt: "read < ex_len rs"
    by (auto split: option.splits if_splits)
  define s1 where "s1 = snd (if read mod 2048 = 0 then get_sector_file img (sector + 1) 2048 s
                             else (Inr (), s))"
  define sec1 where "sec1 = (if read mod 2048 = 0 then sector + 1 else sector)"
  from "1.prems" rs lt obtain u where g: "(if read mod 2048 = 0
        then get_sector_file img (sector + 1) 2048 s else (Inr (), s)) = (Inr u, s1)"
    unfolding s1_def by (auto split: prod.splits sum.splits if_splits)
  from "1.prems" rs lt g obtain r1 data s2 where
    u: "unpack_record read s1 = (Inr (r1, data), s2)"
    by (auto simp: Let_def split: prod.splits sum.splits if_splits option.splits)
  show ?case
  proof (cases data)
    case None
    from unpack_record_None u None have r1: "r1 = read + 1" by blast
    from "1.prems" rs lt g u None obtain v s3 where
      raw: "unpack_raw (2048 - r1 mod 2048) s2 = (Inr v, s3)"
      and rec: "unpack_dir_children_next img (sec1, r1 + (2048 - r1 mod 2048), r_self) s3
                  = (Inr (Some (d, (sector', read', r_self'))), s')"
      unfolding sec1_def
      by (auto simp: Let_def split: prod.splits sum.splits if_splits)
    from u None have u': "(Inr (r1, None), s2) = unpack_record read s1" by simp
    have nn: "\<not> \<not> read < ex_len rs" using lt by simp
    have "r_self' = r_self \<and> r1 + (2048 - r1 mod 2048) < read'
          \<and> (\<exists>rs. r_self = Some rs \<and> r1 + (2048 - r1 mod 2048) < ex_len rs)"
      using "1.hyps" [OF rs nn g [symmetric] refl refl u' refl refl refl refl
                         raw [symmetric] refl] rec
      unfolding sec1_def by simp
    moreover have "0 < 2048 - r1 mod 2048" by simp
    ultimately show ?thesis using r1 rs lt by auto
  next
    case (Some dd)
    from unpack_record_Some u Some have "read < r1" by blast
    moreover from "1.prems" rs lt g u Some
    have "r_self' = r_self" "read' = r1"
      by (auto simp: Let_def split: prod.splits sum.splits if_splits)
    ultimately show ?thesis using rs lt by simp
  qed
qed

text \<open>
  \<open>_search_dir_children\<close>: the \<open>for\<close> loop asks the generator for one child at a
  time and stops at the first whose name is \<open>trm\<close>; the records after it are never
  decoded.
\<close>

function search_dir_children_for :: "string \<Rightarrow> string \<Rightarrow> gen \<Rightarrow> dir_record action" where
  "search_dir_children_for img trm g s =
     (case unpack_dir_children_next img g s of
        (Inl err, s') \<Rightarrow> (Inl err, s')
      | (Inr None, s') \<Rightarrow> (Inl (ISO9660IOError (ArgName trm)), s')
      | (Inr (Some (e, g')), s') \<Rightarrow>
          if name e = trm then (Inr e, s') else search_dir_children_for img trm g' s')"
  by pat_completeness auto
termination
  apply (relation "measure (\<lambda>(img, trm, (sector, read, r_self), s).
                   case r_self of None \<Rightarrow> 0 | Some rs \<Rightarrow> nat (ex_len rs - read))")
   apply simp
  apply (auto dest!: unpack_dir_children_next_yield [OF sym])
  done

definition search_dir_children :: "string \<Rightarrow> dir_ref \<Rightarrow> string \<Rightarrow> dir_record action" where
  "search_dir_children img d trm =
     bnd (unpack_dir_children_start img d) (\<lambda>g. search_dir_children_for img trm g)"

subsection \<open>Resolving the parent directory\<close>

text \<open>Python's \<open>xs[i]\<close>: a negative index counts from the end.\<close>

definition py_index :: "'a list \<Rightarrow> int \<Rightarrow> error + 'a" where
  "py_index xs i =
     (let n = int (length xs)
      in if 0 \<le> i \<and> i < n then Inr (xs ! nat i)
         else if - n \<le> i \<and> i < 0 then Inr (xs ! nat (n + i))
         else Inl IndexError)"

text \<open>
  The \<open>while\<close> loop of \<open>_dir_record_by_table\<close> for one candidate \<open>e\<close>, started with
  \<open>f = e\<close> and \<open>search = list(path)\<close>. It reads the table and changes only its local
  variables: \<open>Inr True\<close> when it reaches \<open>return e\<close>, \<open>Inr False\<close> when the loop
  condition fails, \<open>IndexError\<close> from \<open>search[-1]\<close> on an emptied list or from a
  parent index outside the table.
\<close>

function by_table_while :: "path_entry list \<Rightarrow> path_entry \<Rightarrow> string list \<Rightarrow> error + bool" where
  "by_table_while ps f search =
     (if search = [] then Inl IndexError
      else if pt_name f = last search then
        (case py_index ps (pt_parent f - 1) of
           Inl err \<Rightarrow> Inl err
         | Inr f' \<Rightarrow>
             if pt_parent f' = 1 then Inr True
             else by_table_while ps f' (butlast search))
      else Inr False)"
  by pat_completeness auto
termination
  by (relation "measure (\<lambda>(ps, f, search). length search)") auto

text \<open>
  The \<open>for\<close> loop over \<open>self._paths[::-1]\<close>: \<open>by_table_for k\<close> has the entries at
  the indices below \<open>k\<close> still to visit, the highest first. \<open>e\<close> is the dict stored in
  \<open>self._paths\<close> itself (the slice copies the list, not its elements), so
  \<open>e['ex_len'] = SECTOR_SIZE\<close> writes into the table.
\<close>

fun by_table_for :: "nat \<Rightarrow> string list \<Rightarrow> path_entry action" where
  "by_table_for 0 path s = (Inl (ISO9660IOError (ArgPath path)), s)"
| "by_table_for (Suc k) path s =
     (let e = paths s ! k
      in case by_table_while (paths s) e path of
           Inl err \<Rightarrow> (Inl err, s)
         | Inr True \<Rightarrow>
             (let e' = e\<lparr>pt_ex_len := Some SECTOR_SIZE\<rparr>
              in (Inr e', s\<lparr>paths := (paths s)[k := e']\<rparr>))
         | Inr False \<Rightarrow> by_table_for k path s)"

definition dir_record_by_table :: "string list \<Rightarrow> path_entry action" where
  "dir_record_by_table path = (\<lambda>s. by_table_for (length (paths s)) path s)"

fun by_root_while :: "string \<Rightarrow> dir_ref \<Rightarrow> string list \<Rightarrow> dir_ref action" where
  "by_root_while img current [] s = (Inr current, s)"
| "by_root_while img current (r # remaining) s =
     (case search_dir_children img current r s of
        (Inl err, s') \<Rightarrow> (Inl err, s')
      | (Inr c, s') \<Rightarrow> by_root_while img (IsRecord c) remaining s')"

definition root_ref :: "iso \<Rightarrow> dir_ref" where
  "root_ref s = (case root s of None \<Rightarrow> IsNone | Some r \<Rightarrow> IsRecord r)"

definition dir_record_by_root :: "string \<Rightarrow> string list \<Rightarrow> dir_ref action" where
  "dir_record_by_root img path = (\<lambda>s. by_root_while img (root_ref s) path s)"

subsection \<open>\<open>get_file\<close>\<close>

text \<open>\<open>path.upper().strip('/').split('/')\<close>\<close>

definition split_path :: "string \<Rightarrow> string list" where
  "split_path path = str_split (CHR ''/'') (str_strip (CHR ''/'') (str_upper path))"

definition get_file :: "string \<Rightarrow> string \<Rightarrow> string action" where
  "get_file img path0 =
     (let path = split_path path0;
          filename = last path;
          path = butlast path
      in
      bnd (if length path = 0 then (\<lambda>s. (Inr (root_ref s), s))
           else (\<lambda>s. case dir_record_by_table path s of
                       (Inr e, s') \<Rightarrow> (Inr (IsEntry e), s')
                     | (Inl err, s') \<Rightarrow>
                         (case err of
                            ISO9660IOError a \<Rightarrow> dir_record_by_root img path s'
                          | _ \<Rightarrow> (Inl err, s'))))
        (\<lambda>parent_dir.
      bnd (search_dir_children img parent_dir filename) (\<lambda>f.
      bnd (get_sector_file img (ex_loc f) (ex_len f)) (\<lambda>_.
      unpack_raw (ex_len f)))))"

subsection \<open>The constructor\<close>

definition set_pvd :: "string \<Rightarrow> pvd_value \<Rightarrow> unit action" where
  "set_pvd k v = (\<lambda>s. (Inr (), s\<lparr>pvd := (pvd s)(k \<mapsto> v)\<rparr>))"

definition pvd_string :: "string \<Rightarrow> int \<Rightarrow> unit action" where
  "pvd_string k l = bnd (unpack_string l) (\<lambda>v. set_pvd k (PStr v))"

definition pvd_int :: "string \<Rightarrow> int action \<Rightarrow> unit action" where
  "pvd_int k act = bnd act (\<lambda>v. set_pvd k (PInt v))"

definition pvd_datetime :: "string \<Rightarrow> unit action" where
  "pvd_datetime k = bnd unpack_vd_datetime (\<lambda>v. set_pvd k (PStr v))"

definition discard :: "int \<Rightarrow> unit action" where
  "discard l = bnd (unpack_raw l) (\<lambda>_. ret ())"

fun in_order :: "unit action list \<Rightarrow> unit action" where
  "in_order [] = ret ()"
| "in_order (a # as) = bnd a (\<lambda>_. in_order as)"

definition unpack_pvd :: "unit action" where
  "unpack_pvd = in_order
     [pvd_string ''type_code'' 5,
      pvd_int ''standard_identifier'' (unpack None Fmt_B),
      discard 1,
      pvd_string ''system_identifier'' 32,
      pvd_string ''volume_identifier'' 32,
      discard 8,
      pvd_int ''volume_space_size'' (unpack_both Fmt_i),
      discard 32,
      pvd_int ''volume_set_size'' (unpack_both Fmt_h),
      pvd_int ''volume_seq_num'' (unpack_both Fmt_h),
      pvd_int ''logical_block_size'' (unpack_both Fmt_h),
      pvd_int ''path_table_size'' (unpack_both Fmt_i),
      pvd_int ''path_table_l_loc'' (unpack (Some Little) Fmt_i),
      pvd_int ''path_table_opt_l_loc'' (unpack (Some Little) Fmt_i),
      pvd_int ''path_table_m_loc'' (unpack (Some Big) Fmt_i),
      pvd_int ''path_table_opt_m_loc'' (unpack (Some Big) Fmt_i),
      bnd (unpack_record 0) (\<lambda>(_, r). (\<lambda>s. (Inr (), s\<lparr>root := r\<rparr>))),
      pvd_string ''volume_set_identifer'' 128,
      pvd_string ''publisher_identifier'' 128,
      pvd_string ''data_preparer_identifier'' 128,
      pvd_string ''application_identifier'' 128,
      pvd_string ''copyright_file_identifier'' 38,
      pvd_string ''abstract_file_identifier'' 36,
      pvd_string ''bibliographic_file_identifier'' 37,
      pvd_datetime ''volume_datetime_created'',
      pvd_datetime ''volume_datetime_modified'',
      pvd_datetime ''volume_datetime_expires'',
      pvd_datetime ''volume_datetime_effective'',
      pvd_int ''file_structure_version'' (unpack None Fmt_B)]"

text \<open>
  The scan of the volume descriptors, from sector \<open>0x10\<close>. It ends: past the end of
  the file the sector read is empty and \<open>_unpack('B')\<close> raises.
\<close>

lemma unpack_after_get_sector:
  assumes "get_sector_file img sector len s = (Inr u, s1)"
    and "unpack e c s1 = (Inr v, s2)"
  shows "0 \<le> sector * SECTOR_SIZE \<and> nat (sector * SECTOR_SIZE) < length img"
proof -
  from assms(1) have nonneg: "0 \<le> sector * SECTOR_SIZE"
    and b: "buff s1 = Some (if len < 0 then drop (nat (sector * SECTOR_SIZE)) img
                            else take (nat len) (drop (nat (sector * SECTOR_SIZE)) img), 0)"
    by (auto simp: get_sector_file_def Let_def split: if_splits)
  have "calcsize c > 0" by (cases c) auto
  with assms(2) b have "drop (nat (sector * SECTOR_SIZE)) img \<noteq> []"
    by (auto simp: unpack_def buff_read_def bnd_def Let_def struct_unpack_def raise_exc_def
                   ret_def split: if_splits)
  with nonneg show ?thesis by simp
qed

function init_volume_descriptors :: "string \<Rightarrow> int \<Rightarrow> unit action" where
  "init_volume_descriptors img sector s =
     (case get_sector_file img sector SECTOR_SIZE s of
        (Inl err, s1) \<Rightarrow> (Inl err, s1)
      | (Inr _, s1) \<Rightarrow>
          (case unpack None Fmt_B s1 of
             (Inl err, s2) \<Rightarrow> (Inl err, s2)
           | (Inr ty, s2) \<Rightarrow>
               if ty = 1 then
                 (case unpack_pvd s2 of
                    (Inl err, s3) \<Rightarrow> (Inl err, s3)
                  | (Inr _, s3) \<Rightarrow> init_volume_descriptors img (sector + 1) s3)
               else if ty = 255 then (Inr (), s2)
               else init_volume_descriptors img (sector + 1) s2))"
  by pat_completeness auto
termination
  apply (relation "measure (\<lambda>(img, sector, s). length img - nat (sector * SECTOR_SIZE))")
    apply simp
   apply (auto dest!: unpack_after_get_sector [OF sym sym] simp: SECTOR_SIZE_def)
  done

text \<open>
  One turn of the path-table loop: it appends the entry \<open>p\<close> to \<open>self._paths\<close> and
  hands back \<open>l1\<close>, the declared length of the name, for the byte count.
\<close>

definition init_path_entry :: "int action" where
  "init_path_entry =
     bnd (unpack None Fmt_B) (\<lambda>l1.
     bnd (unpack None Fmt_B) (\<lambda>l2.
     bnd (unpack (Some Little) Fmt_I) (\<lambda>p_ex_loc.
     bnd (unpack (Some Little) Fmt_H) (\<lambda>p_parent.
     bnd (unpack_string l1) (\<lambda>nm.
     let p_name = (if nm = [CHR 0x00] then [] else nm) in
     bnd (if l1 mod 2 = 1 then bnd (unpack None Fmt_B) (\<lambda>_. ret ()) else ret ()) (\<lambda>_.
     (\<lambda>s. (Inr l1,
           s\<lparr>paths := paths s @ [\<lparr>pt_ex_loc = p_ex_loc, pt_parent = p_parent,
                                   pt_name = p_name, pt_ex_len = None\<rparr>]\<rparr>))))))))"

lemma init_path_entry_l1:
  assumes "init_path_entry s = (Inr l1, s')"
  shows "0 \<le> l1 \<and> l1 < 256"
proof -
  from assms obtain s1 where "unpack None Fmt_B s = (Inr l1, s1)"
    unfolding init_path_entry_def
    by (auto elim!: bnd_InrE simp: Let_def)
  then show ?thesis by (rule unpack_B_range)
qed

function init_path_while :: "int \<Rightarrow> int action" where
  "init_path_while l0 s =
     (if l0 > 0 then
        (case init_path_entry s of
           (Inl err, s') \<Rightarrow> (Inl err, s')
         | (Inr l1, s') \<Rightarrow> init_path_while (l0 - (8 + l1 + (l1 mod 2))) s')
      else (Inr l0, s))"
  by pat_completeness auto
termination
  apply (relation "measure (\<lambda>(l0, s). nat l0)")
   apply simp
  apply (auto dest!: init_path_entry_l1 [OF sym])
  done

text \<open>
  Reading \<open>self._pvd[k]\<close> where the constructor needs an integer. Every key it reads
  this way is stored by \<open>_unpack_pvd\<close> as an integer.
\<close>

definition pvd_get :: "string \<Rightarrow> int action" where
  "pvd_get k =
     (\<lambda>s. case pvd s k of
            None \<Rightarrow> (Inl KeyError, s)
          | Some (PInt v) \<Rightarrow> (Inr v, s)
          | Some (PStr v) \<Rightarrow> (Inl TypeError, s))"

text \<open>The section \<open>### Path table\<close> of the constructor, with its final \<open>assert\<close>.\<close>

definition init_path_table :: "string \<Rightarrow> unit action" where
  "init_path_table img =
     bnd (pvd_get ''path_table_size'') (\<lambda>l0.
     bnd (pvd_get ''path_table_l_loc'') (\<lambda>loc.
     bnd (get_sector_file img loc l0) (\<lambda>_.
     bnd (init_path_while l0) (\<lambda>l0.
     if l0 = 0 then ret () else raise_exc AssertionError))))"

definition new_iso :: iso where
  "new_iso = \<lparr>buff = None, root = None, pvd = Map.empty, paths = []\<rparr>"

text \<open>\<open>ISO9660(url)\<close>: the object, or the exception that left the constructor.\<close>

definition init :: "string \<Rightarrow> error + iso" where
  "init img =
     (case bnd (init_volume_descriptors img 0x10) (\<lambda>_. init_path_table img) new_iso of
        (Inl err, s) \<Rightarrow> Inl err
      | (Inr _, s) \<Rightarrow> Inr s)"

section \<open>Notions used in the statements\<close>

text \<open>
  An action is \<open>buffer_only\<close> when it leaves the path table, the volume descriptor and
  the root record as they are, and neither its result nor its effect on the buffer
  depends on the path table.
\<close>

definition buffer_only :: "'a action \<Rightarrow> bool" where
  "buffer_only f \<longleftrightarrow>
     (\<forall>s. paths (snd (f s)) = paths s \<and> pvd (snd (f s)) = pvd s \<and> root (snd (f s)) = root s)
     \<and> (\<forall>s ps. f (s\<lparr>paths := ps\<rparr>) = (fst (f s), (snd (f s))\<lparr>paths := ps\<rparr>))"

text \<open>
  Two path tables: the directories \<open>/X\<close>, \<open>/X/Y\<close>, \<open>/X/Y/A\<close>, and the single
  directory \<open>/B\<close>. The first entry of a path table is the root, its own parent.
\<close>

definition tbl_deep :: "path_entry list" where
  "tbl_deep =
     [\<lparr>pt_ex_loc = 20, pt_parent = 1, pt_name = [], pt_ex_len = None\<rparr>,
      \<lparr>pt_ex_loc = 21, pt_parent = 1, pt_name = ''X'', pt_ex_len = None\<rparr>,
      \<lparr>pt_ex_loc = 22, pt_parent = 2, pt_name = ''Y'', pt_ex_len = None\<rparr>,
      \<lparr>pt_ex_loc = 23, pt_parent = 3, pt_name = ''A'', pt_ex_len = None\<rparr>]"

definition tbl_flat :: "path_entry list" where
  "tbl_flat =
     [\<lparr>pt_ex_loc = 20, pt_parent = 1, pt_name = [], pt_ex_len = None\<rparr>,
      \<lparr>pt_ex_loc = 21, pt_parent = 1, pt_name = ''B'', pt_ex_len = None\<rparr>]"

text \<open>
  A path table of one entry, the root directory at sector 20, and an object whose
  volume descriptor places a table of 10 bytes at sector 1.
\<close>

definition one_entry_table :: string where
  "one_entry_table =
     [CHR 0x01, CHR 0x00, CHR 0x14, CHR 0x00, CHR 0x00, CHR 0x00, CHR 0x01, CHR 0x00,
      CHR 0x00, CHR 0x00]"

definition one_entry_iso :: iso where
  "one_entry_iso =
     new_iso\<lparr>pvd := [''path_table_size'' \<mapsto> PInt 10, ''path_table_l_loc'' \<mapsto> PInt 1]\<rparr>"

text \<open>
  Nine bytes of a path table of ten: an entry that declares a name of two bytes, of
  which the second is missing.
\<close>

definition short_table :: string where
  "short_table =
     [CHR 0x02, CHR 0x00, CHR 0x14, CHR 0x00, CHR 0x00, CHR 0x00, CHR 0x01, CHR 0x00,
      CHR 0x41]"

text \<open>
  \<open>nth_child img n g\<close>: what the iteration over the children of a directory gives at its
  \<open>n\<close>-th step (counted from 0) when it is resumed \<open>n + 1\<close> times from the generator
  state \<open>g\<close>: the child yielded and the state of the generator after it, \<open>None\<close>
  when the iteration has ended, or the exception that left it.
\<close>

fun nth_child :: "string \<Rightarrow> nat \<Rightarrow> gen \<Rightarrow> (dir_record \<times> gen) option action" where
  "nth_child img 0 g s = unpack_dir_children_next img g s"
| "nth_child img (Suc n) g s =
     (case unpack_dir_children_next img g s of
        (Inr (Some (d, g')), s') \<Rightarrow> nth_child img n g' s'
      | (r, s') \<Rightarrow> (r, s'))"

text \<open>
  \<open>returns f Q\<close>: whenever the action \<open>f\<close> returns a value, the value satisfies \<open>Q\<close>.
\<close>

definition returns :: "'a action \<Rightarrow> ('a \<Rightarrow> bool) \<Rightarrow> bool" where
  "returns f Q \<longleftrightarrow> (\<forall>s x s'. f s = (Inr x, s') \<longrightarrow> Q x)"

text \<open>
  The bytes of the name of the directory record that starts at offset \<open>p\<close> of \<open>dat\<close>:
  the length of the name is the byte at offset 32 of the record, the name follows it.
\<close>

definition name_field :: "string \<Rightarrow> nat \<Rightarrow> string" where
  "name_field dat p = take (of_char (dat ! (p + 32))) (drop (p + 33) dat)"

text \<open>
  An image with its root directory in sector 18 and one file, stored as
  \<open>METADATA.XML;1\<close>, whose five bytes are in sector 19. The directory holds its own
  record, the record of its parent and the record of the file, and is padded with zero
  bytes to the end of the sector. \<open>example_root\<close> is the root record as the constructor
  decodes it, \<open>example_dotdot\<close> and \<open>example_meta\<close> are the other two records.
\<close>

definition example_self :: string where
  "example_self =
     [CHR 0x22, CHR 0x00, CHR 0x12, CHR 0x00, CHR 0x00, CHR 0x00, CHR 0x00, CHR 0x00,
      CHR 0x00, CHR 0x12, CHR 0x00, CHR 0x08, CHR 0x00, CHR 0x00, CHR 0x00, CHR 0x00,
      CHR 0x08, CHR 0x00, CHR 0x74, CHR 0x01, CHR 0x01, CHR 0x00, CHR 0x00, CHR 0x00,
      CHR 0x00, CHR 0x02, CHR 0x00, CHR 0x00, CHR 0x01, CHR 0x00, CHR 0x00, CHR 0x01,
      CHR 0x01, CHR 0x00]"

definition example_parent :: string where
  "example_parent =
     [CHR 0x22, CHR 0x00, CHR 0x12, CHR 0x00, CHR 0x00, CHR 0x00, CHR 0x00, CHR 0x00,
      CHR 0x00, CHR 0x12, CHR 0x00, CHR 0x08, CHR 0x00, CHR 0x00, CHR 0x00, CHR 0x00,
      CHR 0x08, CHR 0x00, CHR 0x74, CHR 0x01, CHR 0x01, CHR 0x00, CHR 0x00, CHR 0x00,
      CHR 0x00, CHR 0x02, CHR 0x00, CHR 0x00, CHR 0x01, CHR 0x00, CHR 0x00, CHR 0x01,
      CHR 0x01, CHR 0x01]"

definition example_file :: string where
  "example_file =
     [CHR 0x30, CHR 0x00, CHR 0x13, CHR 0x00, CHR 0x00, CHR 0x00, CHR 0x00, CHR 0x00,
      CHR 0x00, CHR 0x13, CHR 0x05, CHR 0x00, CHR 0x00, CHR 0x00, CHR 0x00, CHR 0x00,
      CHR 0x00, CHR 0x05, CHR 0x74, CHR 0x01, CHR 0x01, CHR 0x00, CHR 0x00, CHR 0x00,
      CHR 0x00, CHR 0x00, CHR 0x00, CHR 0x00, CHR 0x01, CHR 0x00, CHR 0x00, CHR 0x01,
      CHR 0x0E, CHR 0x4D, CHR 0x45, CHR 0x54, CHR 0x41, CHR 0x44, CHR 0x41, CHR 0x54,
      CHR 0x41, CHR 0x2E, CHR 0x58, CHR 0x4D, CHR 0x4C, CHR 0x3B, CHR 0x31, CHR 0x00]"

definition example_dir :: string where
  "example_dir = example_self @ example_parent @ example_file @ replicate 1932 (CHR 0x00)"

definition example_img :: string where
  "example_img = replicate 36864 (CHR 0x00) @ example_dir @ ''<xml>''"

definition example_root :: dir_record where
  "example_root =
     \<lparr>ex_loc = 18, ex_len = 2048, datetime = 1451606400, flags = 2,
      interleave_unit_size = 0, interleave_gap_size = 0, volume_sequence = 1, name = []\<rparr>"

definition example_iso :: iso where
  "example_iso = new_iso\<lparr>root := Some example_root\<rparr>"

definition example_dotdot :: dir_record where
  "example_dotdot = example_root\<lparr>name := [CHR 0x01]\<rparr>"

definition example_meta :: dir_record where
  "example_meta =
     \<lparr>ex_loc = 19, ex_len = 5, datetime = 1451606400, flags = 0,
      interleave_unit_size = 0, interleave_gap_size = 0, volume_sequence = 1,
      name = ''METADATA.XML''\<rparr>"

text \<open>
  A second image: the same root directory with the file \<open>A;1\<close> (three bytes, in
  sector 20) stored before \<open>METADATA.XML;1\<close>.
\<close>

definition example_other :: string where
  "example_other =
     [CHR 0x24, CHR 0x00, CHR 0x14, CHR 0x00, CHR 0x00, CHR 0x00, CHR 0x00, CHR 0x00,
      CHR 0x00, CHR 0x14, CHR 0x03, CHR 0x00, CHR 0x00, CHR 0x00, CHR 0x00, CHR 0x00,
      CHR 0x00, CHR 0x03, CHR 0x74, CHR 0x01, CHR 0x01, CHR 0x00, CHR 0x00, CHR 0x00,
      CHR 0x00, CHR 0x00, CHR 0x00, CHR 0x00, CHR 0x01, CHR 0x00, CHR 0x00, CHR 0x01,
      CHR 0x03, CHR 0x41, CHR 0x3B, CHR 0x31]"

definition two_files_dir :: string where
  "two_files_dir =
     example_self @ example_parent @ example_other @ example_file @ replicate 1896 (CHR 0x00)"

definition two_files_img :: string where
  "two_files_img =
     replicate 36864 (CHR 0x00) @ two_files_dir @ ''<xml>'' @ replicate 2043 (CHR 0x00) @ ''abc''"

definition example_a :: dir_record where
  "example_a =
     \<lparr>ex_loc = 20, ex_len = 3, datetime = 1451606400, flags = 0,
      interleave_unit_size = 0, interleave_gap_size = 0, volume_sequence = 1,
      name = ''A''\<rparr>"

section \<open>Properties\<close>

text \<open>
  The loops are unfolded one turn at a time, where a proof asks for it.
\<close>

declare unpack_dir_children_next.simps [simp del]
declare search_dir_children_for.simps [simp del]
declare by_table_while.simps [simp del]
declare init_volume_descriptors.simps [simp del]
declare init_path_while.simps [simp del]

subsection \<open>Fixed-width decodes and the buffer\<close>

lemma calcsize_pos: "0 < calcsize c"
  by (cases c) auto

lemma unpack_ok:
  assumes "buff s = Some (d, p)" and "p + calcsize c \<le> length d"
  shows "unpack e c s =
           (Inr (decode_int (case e of None \<Rightarrow> Little | Some x \<Rightarrow> x) c
                   (take (calcsize c) (drop p d))),
            s\<lparr>buff := Some (d, p + calcsize c)\<rparr>)"
  using assms
  by (auto simp: unpack_def Let_def bnd_def buff_read_def struct_unpack_def ret_def
                 raise_exc_def min_def)

lemma unpack_short:
  assumes "buff s = Some (d, p)" and "\<not> p + calcsize c \<le> length d"
  shows "unpack e c s = (Inl StructError, s\<lparr>buff := Some (d, max p (length d))\<rparr>)"
  using assms calcsize_pos [of c]
  by (auto simp: unpack_def Let_def bnd_def buff_read_def struct_unpack_def ret_def
                 raise_exc_def min_def max_def)

subsection \<open>Both-endian fields\<close>

text \<open>
  Claim C3. A both-endian field is the little-endian encoding followed at once by the
  big-endian one. When the buffer holds both, \<open>_unpack_both\<close> returns the integer if the
  two decode to the same integer, and otherwise raises the \<open>AssertionError\<close> of its
  \<open>assert a == b\<close> (the error the specification calls ImageCorruptError) and returns
  no value. Either way both encodings have been consumed. (The \<open>assert\<close> is taken as
  enabled, as it is unless Python runs with \<open>-O\<close>.)
\<close>

theorem unpack_both_checks:
  assumes "buff s = Some (d, p)" and "p + 2 * calcsize st \<le> length d"
  shows "unpack_both st s =
     (let lo = take (calcsize st) (drop p d);
          hi = take (calcsize st) (drop (p + calcsize st) d);
          s' = s\<lparr>buff := Some (d, p + 2 * calcsize st)\<rparr>
      in if decode_int Little st lo = decode_int Big st hi
         then (Inr (decode_int Little st lo), s')
         else (Inl AssertionError, s'))"
proof -
  have a: "unpack (Some Little) st s =
        (Inr (decode_int Little st (take (calcsize st) (drop p d))),
         s\<lparr>buff := Some (d, p + calcsize st)\<rparr>)"
    using unpack_ok [OF assms(1), of st "Some Little"] assms(2) by simp
  have b: "unpack (Some Big) st (s\<lparr>buff := Some (d, p + calcsize st)\<rparr>) =
        (Inr (decode_int Big st (take (calcsize st) (drop (p + calcsize st) d))),
         s\<lparr>buff := Some (d, p + 2 * calcsize st)\<rparr>)"
    using unpack_ok [of "s\<lparr>buff := Some (d, p + calcsize st)\<rparr>" d "p + calcsize st" st "Some Big"]
      assms(2) by simp
  show ?thesis
    by (simp add: unpack_both_def bnd_def a b ret_def raise_exc_def Let_def)
qed

text \<open>
  The 32-bit field \<open>0x3412\<close> written both ways decodes to 13330; with the last byte of
  the big-endian half changed the decode raises.
\<close>

theorem unpack_both_checks_witness:
  "fst (unpack_both Fmt_I (new_iso\<lparr>buff := Some ([CHR 0x12, CHR 0x34, CHR 0x00, CHR 0x00,
           CHR 0x00, CHR 0x00, CHR 0x34, CHR 0x12], 0)\<rparr>)) = Inr 13330
   \<and> fst (unpack_both Fmt_I (new_iso\<lparr>buff := Some ([CHR 0x12, CHR 0x34, CHR 0x00, CHR 0x00,
           CHR 0x00, CHR 0x00, CHR 0x34, CHR 0x13], 0)\<rparr>)) = Inl AssertionError"
  using unpack_both_checks [of "new_iso\<lparr>buff := Some ([CHR 0x12, CHR 0x34, CHR 0x00, CHR 0x00,
           CHR 0x00, CHR 0x00, CHR 0x34, CHR 0x12], 0)\<rparr>" "[CHR 0x12, CHR 0x34, CHR 0x00, CHR 0x00,
           CHR 0x00, CHR 0x00, CHR 0x34, CHR 0x12]" 0 Fmt_I]
    unpack_both_checks [of "new_iso\<lparr>buff := Some ([CHR 0x12, CHR 0x34, CHR 0x00, CHR 0x00,
           CHR 0x00, CHR 0x00, CHR 0x34, CHR 0x13], 0)\<rparr>" "[CHR 0x12, CHR 0x34, CHR 0x00, CHR 0x00,
           CHR 0x00, CHR 0x00, CHR 0x34, CHR 0x13]" 0 Fmt_I]
  by (simp add: decode_int_def bytes_nat_def Let_def)

subsection \<open>Sector reads\<close>

text \<open>
  Claim C6, as the code has it. The class has no error for a short read: for
  \<open>sector \<ge> 0\<close> and \<open>length > 0\<close>, \<open>_get_sector_file\<close> always returns normally, and
  the buffer it leaves holds the bytes of the backing file from offset
  \<open>sector * 2048\<close>, as many as there are up to \<open>length\<close>. When the file holds fewer,
  the buffer is that shorter byte string.
\<close>

theorem get_sector_file_reads_available:
  assumes "0 \<le> sector" and "0 < len"
  shows "get_sector_file img sector len s
           = (Inr (), s\<lparr>buff := Some (take (nat len) (drop (nat sector * 2048) img), 0)\<rparr>)
         \<and> length (take (nat len) (drop (nat sector * 2048) img))
             = min (nat len) (length img - nat sector * 2048)"
  using assms by (simp add: get_sector_file_def SECTOR_SIZE_def nat_mult_distrib)

theorem get_sector_file_reads_available_witness:
  "get_sector_file ''abcdef'' 0 4 new_iso = (Inr (), new_iso\<lparr>buff := Some (''abcd'', 0)\<rparr>)"
  using get_sector_file_reads_available [of 0 4 "''abcdef''" new_iso] by simp

text \<open>
  Claim C6 as stated fails: a read of 2048 bytes from a file of ten bytes returns
  normally with a buffer of ten bytes.
\<close>

theorem get_sector_file_short:
  "get_sector_file ''0123456789'' 0 2048 new_iso
     = (Inr (), new_iso\<lparr>buff := Some (''0123456789'', 0)\<rparr>)"
  by (simp add: get_sector_file_def SECTOR_SIZE_def)

subsection \<open>The table-based strategy\<close>

lemma by_table_for_step:
  "0 < k \<Longrightarrow> by_table_for k path s =
     (case by_table_while (paths s) (paths s ! (k - 1)) path of
        Inl err \<Rightarrow> (Inl err, s)
      | Inr True \<Rightarrow>
          (Inr ((paths s ! (k - 1))\<lparr>pt_ex_len := Some SECTOR_SIZE\<rparr>),
           s\<lparr>paths := (paths s)[k - 1 := (paths s ! (k - 1))\<lparr>pt_ex_len := Some SECTOR_SIZE\<rparr>]\<rparr>)
      | Inr False \<Rightarrow> by_table_for (k - 1) path s)"
  by (cases k) (simp_all add: Let_def split: sum.splits bool.splits)

lemma split_path_a_f: "split_path ''/a/f'' = [''A'', ''F'']"
  by code_simp

lemma split_path_metadata: "split_path ''/metadata.xml'' = [''METADATA.XML'']"
  by code_simp

lemma by_table_while_deep:
  "by_table_while tbl_deep (tbl_deep ! (length tbl_deep - Suc 0)) [''A''] = Inl IndexError"
  by code_simp

text \<open>
  Claim C2 at a failing input. The image holds the directories \<open>/X/Y/A\<close> and nothing
  named \<open>A\<close> in its root; the request is \<open>/a/f\<close>. The candidate \<open>A\<close> matches the only
  segment, its parent \<open>Y\<close> is not a child of the root, and the loop goes on to read
  \<open>search[-1]\<close> of the emptied list. The \<open>IndexError\<close> is not an \<open>ISO9660IOError\<close>, so
  \<open>get_file\<close> does not fall back to the walk from the root and the exception leaves
  the call, whatever the image holds.
\<close>

theorem get_file_index_error:
  "fst (get_file img ''/a/f'' (s\<lparr>paths := tbl_deep\<rparr>)) = Inl IndexError"
proof -
  have "0 < length tbl_deep" by (simp add: tbl_deep_def)
  then have "dir_record_by_table [''A''] (s\<lparr>paths := tbl_deep\<rparr>)
          = (Inl IndexError, s\<lparr>paths := tbl_deep\<rparr>)"
    by (simp add: dir_record_by_table_def by_table_for_step by_table_while_deep)
  then show ?thesis
    by (simp add: get_file_def split_path_a_f bnd_def Let_def)
qed

lemma by_table_while_flat:
  "by_table_while tbl_flat (tbl_flat ! (length tbl_flat - Suc 0)) [''A'', ''B''] = Inr True"
  by code_simp

text \<open>
  Claim C4 at a failing input. The image holds the single directory \<open>/B\<close>; the parent
  path is \<open>/A/B\<close>. The candidate \<open>B\<close> matches the last segment, its parent is the root,
  and the strategy returns it with the segment \<open>A\<close> never compared.
\<close>

theorem by_table_unconsumed:
  "fst (dir_record_by_table [''A'', ''B''] (s\<lparr>paths := tbl_flat\<rparr>))
     = Inr \<lparr>pt_ex_loc = 21, pt_parent = 1, pt_name = ''B'', pt_ex_len = Some 2048\<rparr>"
proof -
  have len: "0 < length tbl_flat" by (simp add: tbl_flat_def)
  have e: "(tbl_flat ! (length tbl_flat - Suc 0))\<lparr>pt_ex_len := Some SECTOR_SIZE\<rparr>
             = \<lparr>pt_ex_loc = 21, pt_parent = 1, pt_name = ''B'', pt_ex_len = Some 2048\<rparr>"
    by (simp add: tbl_flat_def SECTOR_SIZE_def)
  show ?thesis using len
    by (simp add: dir_record_by_table_def by_table_for_step by_table_while_flat e)
qed

subsection \<open>What a lookup leaves unchanged\<close>

lemma buffer_onlyI:
  assumes "\<And>s. paths (snd (f s)) = paths s \<and> pvd (snd (f s)) = pvd s \<and> root (snd (f s)) = root s"
    and "\<And>s ps. f (s\<lparr>paths := ps\<rparr>) = (fst (f s), (snd (f s))\<lparr>paths := ps\<rparr>)"
  shows "buffer_only f"
  using assms unfolding buffer_only_def by blast

lemma buffer_only_keeps:
  "buffer_only f \<Longrightarrow> paths (snd (f s)) = paths s \<and> pvd (snd (f s)) = pvd s \<and> root (snd (f s)) = root s"
  unfolding buffer_only_def by blast

lemma buffer_only_paths:
  "buffer_only f \<Longrightarrow> f (s\<lparr>paths := ps\<rparr>) = (fst (f s), (snd (f s))\<lparr>paths := ps\<rparr>)"
  unfolding buffer_only_def by blast

lemma buffer_only_ret [intro!, simp]: "buffer_only (ret x)"
  by (simp add: buffer_only_def ret_def)

lemma buffer_only_raise [intro!, simp]: "buffer_only (raise_exc e)"
  by (simp add: buffer_only_def raise_exc_def)

lemma buffer_only_bnd [intro!]:
  assumes f: "buffer_only f" and g: "\<And>x. buffer_only (g x)"
  shows "buffer_only (bnd f g)"
proof (rule buffer_onlyI)
  fix s
  show "paths (snd (bnd f g s)) = paths s \<and> pvd (snd (bnd f g s)) = pvd s
        \<and> root (snd (bnd f g s)) = root s"
    using buffer_only_keeps [OF f, of s] buffer_only_keeps [OF g]
    by (cases "f s") (auto simp: bnd_def split: sum.splits)
next
  fix s ps
  show "bnd f g (s\<lparr>paths := ps\<rparr>) = (fst (bnd f g s), (snd (bnd f g s))\<lparr>paths := ps\<rparr>)"
    using buffer_only_paths [OF f, where s = s and ps = ps] buffer_only_paths [OF g]
    by (cases "f s") (auto simp: bnd_def split: sum.splits)
qed

lemma buffer_only_if [intro!]:
  "buffer_only f \<Longrightarrow> buffer_only g \<Longrightarrow> buffer_only (if c then f else g)"
  by simp

lemma buffer_only_buff_read [intro!, simp]: "buffer_only (buff_read l)"
  by (auto simp: buffer_only_def buff_read_def Let_def split: option.splits)

lemma buffer_only_get_sector_file [intro!, simp]: "buffer_only (get_sector_file img sector len)"
  by (auto simp: buffer_only_def get_sector_file_def Let_def)

lemma buffer_only_unpack_raw [intro!, simp]: "buffer_only (unpack_raw l)"
  by (simp add: unpack_raw_def)

lemma buffer_only_unpack_string [intro!, simp]: "buffer_only (unpack_string l)"
  unfolding unpack_string_def by (intro buffer_only_bnd) simp_all

lemma buffer_only_unpack [intro!, simp]: "buffer_only (unpack e c)"
  unfolding unpack_def Let_def by (intro buffer_only_bnd) (simp_all split: sum.splits)

lemma buffer_only_unpack_both [intro!, simp]: "buffer_only (unpack_both c)"
  unfolding unpack_both_def by (intro buffer_only_bnd buffer_only_if) simp_all

lemma buffer_only_unpack_dir_datetime [intro!, simp]: "buffer_only unpack_dir_datetime"
  unfolding unpack_dir_datetime_def Let_def
  by (intro buffer_only_bnd buffer_only_if) (simp_all split: sum.splits)

lemma buffer_only_unpack_record [intro!, simp]: "buffer_only (unpack_record read)"
  unfolding unpack_record_def Let_def
  by (intro buffer_only_bnd buffer_only_if) simp_all

lemma buffer_only_start [intro!, simp]: "buffer_only (unpack_dir_children_start img d)"
  unfolding unpack_dir_children_start_def
  by (cases "ref_ex_loc d") (auto simp: split_def intro!: buffer_only_bnd)


lemma buffer_only_bnd_strong:
  assumes f: "buffer_only f" and g: "\<And>x s s'. f s = (Inr x, s') \<Longrightarrow> buffer_only (g x)"
  shows "buffer_only (bnd f g)"
proof (rule buffer_onlyI)
  fix s
  show "paths (snd (bnd f g s)) = paths s \<and> pvd (snd (bnd f g s)) = pvd s
        \<and> root (snd (bnd f g s)) = root s"
    using buffer_only_keeps [OF f, of s] buffer_only_keeps [OF g]
    by (cases "f s") (auto simp: bnd_def split: sum.splits)
next
  fix s ps
  show "bnd f g (s\<lparr>paths := ps\<rparr>) = (fst (bnd f g s), (snd (bnd f g s))\<lparr>paths := ps\<rparr>)"
    using buffer_only_paths [OF f, where s = s and ps = ps] buffer_only_paths [OF g]
    by (cases "f s") (auto simp: bnd_def split: sum.splits)
qed

lemma next_unfold:
  "unpack_dir_children_next img (sector, read, r_self) =
     (case r_self of
        None \<Rightarrow> raise_exc TypeError
      | Some rs \<Rightarrow>
          if \<not> read < ex_len rs then ret None
          else
            bnd (if read mod 2048 = 0 then get_sector_file img (sector + 1) 2048 else ret ())
              (\<lambda>_. bnd (unpack_record read)
                (\<lambda>(r, data).
                   case data of
                     None \<Rightarrow>
                       bnd (unpack_raw (2048 - r mod 2048))
                         (\<lambda>_. unpack_dir_children_next img
                                 (if read mod 2048 = 0 then sector + 1 else sector,
                                  r + (2048 - r mod 2048), r_self))
                   | Some d \<Rightarrow>
                       ret (Some (d, (if read mod 2048 = 0 then sector + 1 else sector,
                                      r, r_self))))))"
  apply (rule ext)
  apply (subst unpack_dir_children_next.simps)
  apply (simp add: bnd_def ret_def raise_exc_def Let_def
              split: option.splits prod.splits sum.splits)
  done

lemma buffer_only_next: "buffer_only (unpack_dir_children_next img (sector, read, r_self))"
proof (induction "case r_self of None \<Rightarrow> 0 | Some rs \<Rightarrow> nat (ex_len rs - read)"
         arbitrary: sector read rule: less_induct)
  case less
  show ?case
  proof (cases r_self)
    case None
    then show ?thesis by (subst next_unfold) simp
  next
    case (Some rs)
    show ?thesis
    proof (cases "read < ex_len rs")
      case False
      with Some show ?thesis by (subst next_unfold) simp
    next
      case True
      have rec: "buffer_only (unpack_dir_children_next img (sec, r + (2048 - r mod 2048), r_self))"
        if "unpack_record read s = (Inr (r, None), s')" for r s s' sec
      proof -
        from that have "r = read + 1" by (rule unpack_record_None)
        moreover have "0 < 2048 - r mod 2048" by simp
        ultimately show ?thesis using Some True by (intro less) simp
      qed
      define sec where "sec = (if read mod 2048 = 0 then sector + 1 else sector)"
      define k :: "int \<times> dir_record option \<Rightarrow> (dir_record \<times> gen) option action"
        where "k = (\<lambda>(r, data).
                   case data of
                     None \<Rightarrow>
                       bnd (unpack_raw (2048 - r mod 2048))
                         (\<lambda>_. unpack_dir_children_next img
                                 (sec, r + (2048 - r mod 2048), r_self))
                   | Some d \<Rightarrow> ret (Some (d, (sec, r, r_self))))"
      have k: "buffer_only (k x)" if "unpack_record read s = (Inr x, s')" for x s s'
      proof (cases x)
        case (Pair r data)
        show ?thesis
        proof (cases data)
          case None
          with that Pair have "unpack_record read s = (Inr (r, None), s')" by simp
          from rec [OF this] show ?thesis
            unfolding k_def Pair None by (auto intro!: buffer_only_bnd)
        next
          case (Some d)
          then show ?thesis unfolding k_def Pair by simp
        qed
      qed
      have inner: "buffer_only (bnd (unpack_record read) k)"
        by (rule buffer_only_bnd_strong) (simp, rule k)
      have outer: "buffer_only (bnd (if read mod 2048 = 0
                                     then get_sector_file img (sector + 1) 2048 else ret ())
                                 (\<lambda>_. bnd (unpack_record read) k))"
        by (rule buffer_only_bnd) (simp_all add: inner)
      have eq: "unpack_dir_children_next img (sector, read, r_self)
                  = bnd (if read mod 2048 = 0
                         then get_sector_file img (sector + 1) 2048 else ret ())
                      (\<lambda>_. bnd (unpack_record read) k)"
        unfolding k_def sec_def Some by (subst next_unfold) (simp add: True)
      show ?thesis unfolding eq by (rule outer)
    qed
  qed
qed


lemma search_for_unfold:
  "search_dir_children_for img trm g =
     bnd (unpack_dir_children_next img g)
       (\<lambda>y. case y of
              None \<Rightarrow> raise_exc (ISO9660IOError (ArgName trm))
            | Some (e, g') \<Rightarrow>
                if name e = trm then ret e else search_dir_children_for img trm g')"
  apply (rule ext)
  apply (subst search_dir_children_for.simps)
  apply (simp add: bnd_def ret_def raise_exc_def split: option.splits prod.splits sum.splits)
  done

lemma buffer_only_search_for:
  "buffer_only (search_dir_children_for img trm (sector, read, r_self))"
proof (induction "case r_self of None \<Rightarrow> 0 | Some rs \<Rightarrow> nat (ex_len rs - read)"
         arbitrary: sector read rule: less_induct)
  case less
  define k :: "(dir_record \<times> gen) option \<Rightarrow> dir_record action"
    where "k = (\<lambda>y. case y of
              None \<Rightarrow> raise_exc (ISO9660IOError (ArgName trm))
            | Some (e, g') \<Rightarrow>
                if name e = trm then ret e else search_dir_children_for img trm g')"
  have k: "buffer_only (k y)"
    if "unpack_dir_children_next img (sector, read, r_self) s = (Inr y, s')" for y s s'
  proof (cases y)
    case None
    then show ?thesis by (simp add: k_def)
  next
    case (Some p)
    obtain e sector' read' r_self' where p: "p = (e, (sector', read', r_self'))"
      by (cases p) auto
    from that Some p have
      y: "r_self' = r_self \<and> read < read' \<and> (\<exists>rs. r_self = Some rs \<and> read < ex_len rs)"
      by (intro unpack_dir_children_next_yield) simp
    then have "buffer_only (search_dir_children_for img trm (sector', read', r_self))"
      by (intro less) auto
    with y show ?thesis by (simp add: k_def Some p)
  qed
  have "buffer_only (bnd (unpack_dir_children_next img (sector, read, r_self)) k)"
    by (rule buffer_only_bnd_strong) (rule buffer_only_next, rule k)
  then show ?case
    unfolding k_def by (subst search_for_unfold)
qed

lemma buffer_only_search_dir_children: "buffer_only (search_dir_children img d trm)"
  unfolding search_dir_children_def
  by (rule buffer_only_bnd) (auto simp: buffer_only_search_for)

lemma by_root_while_unfold:
  "by_root_while img current (r # remaining) =
     bnd (search_dir_children img current r) (\<lambda>c. by_root_while img (IsRecord c) remaining)"
  by (rule ext) (simp add: bnd_def split: prod.splits sum.splits)

lemma buffer_only_by_root_while: "buffer_only (by_root_while img current path)"
proof (induction path arbitrary: current)
  case Nil
  have "by_root_while img current [] = ret current"
    by (rule ext) (simp add: ret_def)
  then show ?case by simp
next
  case (Cons r remaining)
  show ?case
    unfolding by_root_while_unfold
    by (rule buffer_only_bnd) (simp_all add: buffer_only_search_dir_children Cons)
qed

lemma by_table_for_exact:
  assumes "k \<le> length (paths s)"
  shows "case by_table_for k path s of
           (Inl err, s') \<Rightarrow> s' = s
         | (Inr e, s') \<Rightarrow>
             \<exists>i<k. e = (paths s ! i)\<lparr>pt_ex_len := Some SECTOR_SIZE\<rparr>
                   \<and> s' = s\<lparr>paths := (paths s)[i := e]\<rparr>"
  using assms
proof (induction k)
  case 0
  show ?case by simp
next
  case (Suc k)
  show ?case
  proof (cases "by_table_while (paths s) (paths s ! k) path")
    case (Inl err)
    then show ?thesis by (simp add: Let_def)
  next
    case (Inr b)
    show ?thesis
    proof (cases b)
      case True
      with Inr show ?thesis by (auto simp: Let_def)
    next
      case False
      from Suc have "case by_table_for k path s of
           (Inl err, s') \<Rightarrow> s' = s
         | (Inr e, s') \<Rightarrow>
             \<exists>i<k. e = (paths s ! i)\<lparr>pt_ex_len := Some SECTOR_SIZE\<rparr>
                   \<and> s' = s\<lparr>paths := (paths s)[i := e]\<rparr>" by simp
      with Inr False show ?thesis
        by (auto simp: Let_def less_Suc_eq split: prod.splits sum.splits)
    qed
  qed
qed

lemma dir_record_by_table_exact:
  "case dir_record_by_table path s of
     (Inl err, s') \<Rightarrow> s' = s
   | (Inr e, s') \<Rightarrow>
       \<exists>i<length (paths s). e = (paths s ! i)\<lparr>pt_ex_len := Some SECTOR_SIZE\<rparr>
             \<and> s' = s\<lparr>paths := (paths s)[i := e]\<rparr>"
  unfolding dir_record_by_table_def by (rule by_table_for_exact) simp

lemma dir_record_by_root_frame:
  "paths (snd (dir_record_by_root img path s)) = paths s
   \<and> pvd (snd (dir_record_by_root img path s)) = pvd s
   \<and> root (snd (dir_record_by_root img path s)) = root s"
  unfolding dir_record_by_root_def
  by (rule buffer_only_keeps [OF buffer_only_by_root_while])

lemma buffer_only_tail:
  "buffer_only (bnd (search_dir_children img parent_dir filename) (\<lambda>f.
     bnd (get_sector_file img (ex_loc f) (ex_len f)) (\<lambda>_.
     unpack_raw (ex_len f))))"
  by (intro buffer_only_bnd buffer_only_search_dir_children) simp_all

lemma get_file_exact:
  "paths (snd (get_file img p s))
     = (if butlast (split_path p) = [] then paths s
        else paths (snd (dir_record_by_table (butlast (split_path p)) s)))
   \<and> pvd (snd (get_file img p s)) = pvd s
   \<and> root (snd (get_file img p s)) = root s"
proof -
  define path where "path = butlast (split_path p)"
  define filename where "filename = last (split_path p)"
  define tail where "tail = (\<lambda>parent_dir.
     bnd (search_dir_children img parent_dir filename) (\<lambda>f.
     bnd (get_sector_file img (ex_loc f) (ex_len f)) (\<lambda>_.
     unpack_raw (ex_len f))))"
  define resolve :: "dir_ref action" where "resolve =
     (if length path = 0 then (\<lambda>s. (Inr (root_ref s), s))
      else (\<lambda>s. case dir_record_by_table path s of
                  (Inr e, s') \<Rightarrow> (Inr (IsEntry e), s')
                | (Inl err, s') \<Rightarrow>
                    (case err of
                       ISO9660IOError a \<Rightarrow> dir_record_by_root img path s'
                     | _ \<Rightarrow> (Inl err, s'))))"
  have gf: "get_file img p = bnd resolve tail"
    by (simp only: get_file_def Let_def resolve_def tail_def path_def filename_def)
  have tl: "buffer_only (tail x)" for x
    unfolding tail_def by (rule buffer_only_tail)
  have res: "paths (snd (resolve s))
               = (if path = [] then paths s else paths (snd (dir_record_by_table path s)))
             \<and> pvd (snd (resolve s)) = pvd s \<and> root (snd (resolve s)) = root s"
  proof (cases "path = []")
    case True
    then show ?thesis by (simp add: resolve_def)
  next
    case False
    obtain r s1 where t: "dir_record_by_table path s = (r, s1)"
      by (cases "dir_record_by_table path s")
    note ex = dir_record_by_table_exact [where path = path and s = s, unfolded t, simplified]
    show ?thesis
    proof (cases r)
      case (Inr e)
      with False t ex show ?thesis by (auto simp: resolve_def)
    next
      case (Inl err)
      with ex have s1: "s1 = s" by simp
      show ?thesis
        using False t Inl s1 dir_record_by_root_frame [of img path s]
        by (cases err) (simp_all add: resolve_def)
    qed
  qed
  obtain r s1 where rs: "resolve s = (r, s1)" by (cases "resolve s")
  show ?thesis
  proof (cases r)
    case (Inl err)
    with rs res show ?thesis by (simp add: gf bnd_def path_def)
  next
    case (Inr x)
    with rs res buffer_only_keeps [OF tl, of x s1] show ?thesis
      by (simp add: gf bnd_def path_def)
  qed
qed

text \<open>
  Claim C9, as the code has it. No lookup changes the volume descriptor or the root
  record, and the walk from the root leaves the path table as it is. The table-based
  strategy leaves the whole object as it is when it raises; when it returns an entry,
  the object after the call differs from the object before in one place only: the
  entry returned is the entry at one index \<open>i\<close> of the table with
  \<open>ex_len = SECTOR_SIZE\<close> stored in it, and it stands at that index in place of the
  entry as it was. Every other entry, and every other key of that entry, is as before.
  \<open>get_file\<close> leaves the path table as the table-based strategy leaves it on the
  parent path, and untouched when the path has one segment.
\<close>

theorem lookups_keep_table:
  "(case dir_record_by_table path s of
      (Inl err, s') \<Rightarrow> s' = s
    | (Inr e, s') \<Rightarrow>
        \<exists>i<length (paths s). e = (paths s ! i)\<lparr>pt_ex_len := Some SECTOR_SIZE\<rparr>
              \<and> s' = s\<lparr>paths := (paths s)[i := e]\<rparr>)
   \<and> paths (snd (dir_record_by_root img path s)) = paths s
   \<and> pvd (snd (dir_record_by_root img path s)) = pvd s
   \<and> root (snd (dir_record_by_root img path s)) = root s
   \<and> paths (snd (get_file img p s))
       = (if butlast (split_path p) = [] then paths s
          else paths (snd (dir_record_by_table (butlast (split_path p)) s)))
   \<and> pvd (snd (get_file img p s)) = pvd s
   \<and> root (snd (get_file img p s)) = root s"
  using dir_record_by_table_exact [where path = path and s = s] dir_record_by_root_frame [of img path s]
    get_file_exact [of img p s]
  by simp

text \<open>
  Claim C9 as stated fails: resolving \<open>/B\<close> through the table of an image whose only
  directory is \<open>/B\<close> leaves a path table that differs from the one before the call.
\<close>

theorem by_table_mutates_entry:
  "paths (snd (dir_record_by_table [''B''] (new_iso\<lparr>paths := tbl_flat\<rparr>)))
     \<noteq> paths (new_iso\<lparr>paths := tbl_flat\<rparr>)"
  by code_simp

subsection \<open>The path table\<close>

lemma unpack_Inr:
  assumes "unpack e c s = (Inr v, s')" and "buff s = Some (d, p)"
  shows "p + calcsize c \<le> length d \<and> s' = s\<lparr>buff := Some (d, p + calcsize c)\<rparr>
         \<and> v = decode_int (case e of None \<Rightarrow> Little | Some x \<Rightarrow> x) c
                 (take (calcsize c) (drop p d))"
proof (cases "p + calcsize c \<le> length d")
  case True
  from unpack_ok [OF assms(2) True, of e] assms(1) True show ?thesis by simp
next
  case False
  from unpack_short [OF assms(2) False, of e] assms(1) show ?thesis by simp
qed

lemma buff_read_Some:
  assumes "buff s = Some (d, p)" and "0 \<le> l"
  shows "buff_read l s = (Inr (take (nat l) (drop p d)),
                          s\<lparr>buff := Some (d, p + min (nat l) (length d - p))\<rparr>)"
  using assms by (simp add: buff_read_def Let_def min_def)

lemma unpack_string_Some:
  assumes "buff s = Some (d, p)" and "0 \<le> l"
  shows "unpack_string l s = (Inr (str_rstrip (CHR '' '') (take (nat l) (drop p d))),
                              s\<lparr>buff := Some (d, p + min (nat l) (length d - p))\<rparr>)"
  using buff_read_Some [OF assms] by (simp add: unpack_string_def bnd_def ret_def)

lemma init_path_entry_Inr:
  assumes ok: "init_path_entry s = (Inr l1, s')" and b: "buff s = Some (d, p)"
    and p: "p \<le> length d"
  shows "0 \<le> l1 \<and> buff s' = Some (d, min (p + nat (8 + l1 + l1 mod 2)) (length d))
         \<and> pvd s' = pvd s \<and> root s' = root s"
proof -
  from ok obtain l2 p_ex_loc p_parent nm u s1 s2 s3 s4 s5 s6 where
    u1: "unpack None Fmt_B s = (Inr l1, s1)" and
    u2: "unpack None Fmt_B s1 = (Inr l2, s2)" and
    u3: "unpack (Some Little) Fmt_I s2 = (Inr p_ex_loc, s3)" and
    u4: "unpack (Some Little) Fmt_H s3 = (Inr p_parent, s4)" and
    u5: "unpack_string l1 s4 = (Inr nm, s5)" and
    u6: "(if l1 mod 2 = 1 then bnd (unpack None Fmt_B) (\<lambda>_. ret ()) else ret ()) s5 = (Inr u, s6)" and
    fin: "s' = s6\<lparr>paths := paths s6 @ [\<lparr>pt_ex_loc = p_ex_loc, pt_parent = p_parent,
                    pt_name = (if nm = [CHR 0x00] then [] else nm), pt_ex_len = None\<rparr>]\<rparr>"
    unfolding init_path_entry_def Let_def
    by (elim bnd_InrE) auto
  from unpack_B_range [OF u1] have l1: "0 \<le> l1" by simp
  from unpack_Inr [OF u1 b] have s1: "s1 = s\<lparr>buff := Some (d, p + 1)\<rparr>" by simp
  then have b1: "buff s1 = Some (d, p + 1)" by simp
  from unpack_Inr [OF u2 b1] have s2: "s2 = s1\<lparr>buff := Some (d, p + 2)\<rparr>" by simp
  then have b2: "buff s2 = Some (d, p + 2)" by simp
  from unpack_Inr [OF u3 b2] have s3: "s3 = s2\<lparr>buff := Some (d, p + 6)\<rparr>" by simp
  then have b3: "buff s3 = Some (d, p + 6)" by simp
  from unpack_Inr [OF u4 b3] have s4: "s4 = s3\<lparr>buff := Some (d, p + 8)\<rparr>"
    and le8: "p + 8 \<le> length d" by simp_all
  then have b4: "buff s4 = Some (d, p + 8)" by simp
  from unpack_string_Some [OF b4 l1] u5
  have s5: "s5 = s4\<lparr>buff := Some (d, p + 8 + min (nat l1) (length d - (p + 8)))\<rparr>" by simp
  then have b5: "buff s5 = Some (d, p + 8 + min (nat l1) (length d - (p + 8)))" by simp
  have frame: "pvd s5 = pvd s \<and> root s5 = root s"
    by (simp add: s1 s2 s3 s4 s5)
  show ?thesis
  proof (cases "l1 mod 2 = 1")
    case True
    with u6 obtain w where u7: "unpack None Fmt_B s5 = (Inr w, s6)"
      by (auto elim!: bnd_InrE simp: ret_def)
    from unpack_Inr [OF u7 b5]
    have le: "p + 8 + min (nat l1) (length d - (p + 8)) + 1 \<le> length d"
      and s6: "s6 = s5\<lparr>buff := Some (d, p + 8 + min (nat l1) (length d - (p + 8)) + 1)\<rparr>"
      by simp_all
    from le have "min (nat l1) (length d - (p + 8)) = nat l1"
      unfolding min_def by (simp split: if_splits)
    with le s6 True l1 frame show ?thesis
      by (simp add: fin min_def nat_add_distrib)
  next
    case False
    with u6 have s6: "s6 = s5" by (simp add: ret_def)
    from False have "l1 mod 2 = 0" by presburger
    with s6 b5 le8 l1 frame show ?thesis
      by (auto simp: fin min_def nat_add_distrib)
  qed
qed


lemma init_path_while_Inr:
  assumes "init_path_while l0 s = (Inr r, s')" and "buff s = Some (d, p)" and "p \<le> length d"
  shows "r \<le> l0 \<and> (0 < l0 \<longrightarrow> r \<le> 0)
         \<and> buff s' = Some (d, min (p + nat (l0 - r)) (length d))
         \<and> pvd s' = pvd s \<and> root s' = root s"
  using assms
proof (induction l0 s arbitrary: p rule: init_path_while.induct)
  case (1 l0 s)
  show ?case
  proof (cases "0 < l0")
    case False
    with "1.prems" show ?thesis
      by (subst (asm) init_path_while.simps) (simp add: min_def)
  next
    case True
    with "1.prems"(1) obtain l1 s1 where
      e: "init_path_entry s = (Inr l1, s1)" and
      rec: "init_path_while (l0 - (8 + l1 + l1 mod 2)) s1 = (Inr r, s')"
      by (subst (asm) init_path_while.simps)
         (auto split: prod.splits sum.splits)
    from init_path_entry_Inr [OF e "1.prems"(2,3)]
    have l1: "0 \<le> l1"
      and b1: "buff s1 = Some (d, min (p + nat (8 + l1 + l1 mod 2)) (length d))"
      and fr: "pvd s1 = pvd s" "root s1 = root s"
      by simp_all
    have le: "min (p + nat (8 + l1 + l1 mod 2)) (length d) \<le> length d" by simp
    from "1.IH" [OF True e [symmetric] refl rec b1 le]
    have ih: "r \<le> l0 - (8 + l1 + l1 mod 2)"
      "buff s' = Some (d, min (min (p + nat (8 + l1 + l1 mod 2)) (length d)
                               + nat (l0 - (8 + l1 + l1 mod 2) - r)) (length d))"
      "pvd s' = pvd s1" "root s' = root s1"
      "0 < l0 - (8 + l1 + l1 mod 2) \<longrightarrow> r \<le> 0"
      by simp_all
    have sz: "0 \<le> 8 + l1 + l1 mod 2" using l1 by simp
    have "nat (l0 - r) = nat (8 + l1 + l1 mod 2) + nat (l0 - (8 + l1 + l1 mod 2) - r)"
      using sz ih(1) by linarith
    then have "min (min (p + nat (8 + l1 + l1 mod 2)) (length d)
                    + nat (l0 - (8 + l1 + l1 mod 2) - r)) (length d)
               = min (p + nat (l0 - r)) (length d)"
      by (simp add: min_def)
    moreover have "r \<le> 0" using ih(1,5) sz by linarith
    ultimately show ?thesis using ih fr sz by simp
  qed
qed

lemma pvd_get_Some:
  "pvd s k = Some (PInt v) \<Longrightarrow> pvd_get k s = (Inr v, s)"
  by (simp add: pvd_get_def)

text \<open>
  Claim C5, as the code has it. The path-table section of the constructor reads the
  declared \<open>path_table_size\<close> bytes at sector \<open>path_table_l_loc\<close> and runs its loop on
  them, counting \<open>8 + l1 + l1 % 2\<close> bytes for each entry. For a table that lies within
  the image, that is when the image holds the declared number of bytes from the
  table's sector on: when the count lands on the declared size (remainder 0) the
  section succeeds and the cursor stands at exactly the declared size, so the entries
  decoded have consumed exactly that many bytes; when the loop ends with a remainder
  other than 0 the \<open>assert l0 == 0\<close> raises (\<open>AssertionError\<close>, the specification's
  ImageCorruptError); an exception raised inside the loop leaves the section as it is.
\<close>

theorem path_table_accounting:
  assumes size: "pvd s ''path_table_size'' = Some (PInt n)"
    and loc: "pvd s ''path_table_l_loc'' = Some (PInt loc)"
    and "0 \<le> loc" and "nat loc * 2048 + nat n \<le> length img"
  shows "case init_path_while n (snd (get_sector_file img loc n s)) of
           (Inl err, s') \<Rightarrow> init_path_table img s = (Inl err, s')
         | (Inr r, s') \<Rightarrow>
             if r = 0
             then init_path_table img s = (Inr (), s')
                  \<and> buff s' = Some (take (nat n) (drop (nat loc * 2048) img), nat n)
             else init_path_table img s = (Inl AssertionError, s')"
proof -
  define tbl where "tbl = (if n < 0 then drop (nat loc * 2048) img
                           else take (nat n) (drop (nat loc * 2048) img))"
  define s0 where "s0 = s\<lparr>buff := Some (tbl, 0)\<rparr>"
  have g: "get_sector_file img loc n s = (Inr (), s0)"
    using \<open>0 \<le> loc\<close>
    by (simp add: get_sector_file_def SECTOR_SIZE_def nat_mult_distrib s0_def tbl_def)
  have tab: "init_path_table img s =
               (case init_path_while n s0 of
                  (Inl err, s') \<Rightarrow> (Inl err, s')
                | (Inr r, s') \<Rightarrow> if r = 0 then (Inr (), s') else (Inl AssertionError, s'))"
    by (simp add: init_path_table_def bnd_def pvd_get_Some [OF size] pvd_get_Some [OF loc] g
                  ret_def raise_exc_def split: prod.splits sum.splits)
  obtain res s' where w: "init_path_while n s0 = (res, s')"
    by (cases "init_path_while n s0")
  show ?thesis
  proof (cases res)
    case (Inl err)
    with w tab g show ?thesis by simp
  next
    case (Inr r)
    show ?thesis
    proof (cases "r = 0")
      case False
      with w tab g Inr show ?thesis by simp
    next
      case True
      have b0: "buff s0 = Some (tbl, 0)" by (simp add: s0_def)
      from init_path_while_Inr [OF w [unfolded Inr] b0]
      have "r \<le> n" and b: "buff s' = Some (tbl, min (0 + nat (n - r)) (length tbl))"
        by simp_all
      with True have n0: "0 \<le> n" by simp
      then have "length tbl = nat n"
        using assms(4) by (simp add: tbl_def)
      with b True n0 have "buff s' = Some (take (nat n) (drop (nat loc * 2048) img), nat n)"
        by (simp add: tbl_def)
      with w tab g Inr True show ?thesis by simp
    qed
  qed
qed

text \<open>The one-entry table: 10 bytes declared, 10 bytes consumed, one entry.\<close>

lemma one_entry_sector:
  "get_sector_file (replicate 2048 (CHR 0x00) @ one_entry_table) 1 10 one_entry_iso
     = (Inr (), one_entry_iso\<lparr>buff := Some (one_entry_table, 0)\<rparr>)"
  by (simp add: get_sector_file_def SECTOR_SIZE_def one_entry_table_def)

lemma one_entry_while:
  "fst (init_path_while 10 (one_entry_iso\<lparr>buff := Some (one_entry_table, 0)\<rparr>)) = Inr 0
   \<and> paths (snd (init_path_while 10 (one_entry_iso\<lparr>buff := Some (one_entry_table, 0)\<rparr>)))
       = [\<lparr>pt_ex_loc = 20, pt_parent = 1, pt_name = [], pt_ex_len = None\<rparr>]"
  by code_simp

theorem path_table_accounting_witness:
  "fst (init_path_table (replicate 2048 (CHR 0x00) @ one_entry_table) one_entry_iso) = Inr ()
   \<and> buff (snd (init_path_table (replicate 2048 (CHR 0x00) @ one_entry_table) one_entry_iso))
       = Some (one_entry_table, 10)
   \<and> paths (snd (init_path_table (replicate 2048 (CHR 0x00) @ one_entry_table) one_entry_iso))
       = [\<lparr>pt_ex_loc = 20, pt_parent = 1, pt_name = [], pt_ex_len = None\<rparr>]"
proof -
  have 1: "pvd one_entry_iso ''path_table_size'' = Some (PInt 10)"
    and 2: "pvd one_entry_iso ''path_table_l_loc'' = Some (PInt 1)"
    by (simp_all add: one_entry_iso_def)
  have 3: "nat 1 * 2048 + nat 10 \<le> length (replicate 2048 (CHR 0x00) @ one_entry_table)"
    by (simp add: one_entry_table_def)
  obtain r s' where w: "init_path_while 10 (one_entry_iso\<lparr>buff := Some (one_entry_table, 0)\<rparr>)
                          = (r, s')"
    by (cases "init_path_while 10 (one_entry_iso\<lparr>buff := Some (one_entry_table, 0)\<rparr>)")
  with one_entry_while have r: "r = Inr 0"
    and p: "paths s' = [\<lparr>pt_ex_loc = 20, pt_parent = 1, pt_name = [], pt_ex_len = None\<rparr>]"
    by simp_all
  have t: "take 10 one_entry_table = one_entry_table" by (simp add: one_entry_table_def)
  from path_table_accounting [OF 1 2 _ 3] show ?thesis
    by (simp add: one_entry_sector w r p t)
qed

lemma short_sector:
  "get_sector_file (replicate 2048 (CHR 0x00) @ short_table) 1 10 one_entry_iso
     = (Inr (), one_entry_iso\<lparr>buff := Some (short_table, 0)\<rparr>)"
  by (simp add: get_sector_file_def SECTOR_SIZE_def short_table_def)

lemma short_while:
  "fst (init_path_while 10 (one_entry_iso\<lparr>buff := Some (short_table, 0)\<rparr>)) = Inr 0
   \<and> buff (snd (init_path_while 10 (one_entry_iso\<lparr>buff := Some (short_table, 0)\<rparr>)))
       = Some (short_table, 9)
   \<and> paths (snd (init_path_while 10 (one_entry_iso\<lparr>buff := Some (short_table, 0)\<rparr>)))
       = [\<lparr>pt_ex_loc = 20, pt_parent = 1, pt_name = ''A'', pt_ex_len = None\<rparr>]"
  by code_simp

text \<open>
  Claim C5 as stated fails on an image that ends inside the table. Ten bytes are
  declared and the image holds nine of them. The entry declares a name of two bytes,
  the read returns the one byte that is there, and the loop counts the two declared:
  the remainder is 0 and the \<open>assert\<close> passes. The section succeeds with one entry,
  whose name is cut to \<open>A\<close>, having consumed nine bytes where ten are declared.
\<close>

theorem path_table_truncated:
  "pvd one_entry_iso ''path_table_size'' = Some (PInt 10)
   \<and> length short_table = 9
   \<and> fst (init_path_table (replicate 2048 (CHR 0x00) @ short_table) one_entry_iso) = Inr ()
   \<and> buff (snd (init_path_table (replicate 2048 (CHR 0x00) @ short_table) one_entry_iso))
       = Some (short_table, 9)
   \<and> paths (snd (init_path_table (replicate 2048 (CHR 0x00) @ short_table) one_entry_iso))
       = [\<lparr>pt_ex_loc = 20, pt_parent = 1, pt_name = ''A'', pt_ex_len = None\<rparr>]"
proof -
  have 1: "pvd one_entry_iso ''path_table_size'' = Some (PInt 10)"
    and 2: "pvd one_entry_iso ''path_table_l_loc'' = Some (PInt 1)"
    by (simp_all add: one_entry_iso_def)
  have 3: "length short_table = 9" by (simp add: short_table_def)
  obtain r s' where w: "init_path_while 10 (one_entry_iso\<lparr>buff := Some (short_table, 0)\<rparr>)
                          = (r, s')"
    by (cases "init_path_while 10 (one_entry_iso\<lparr>buff := Some (short_table, 0)\<rparr>)")
  with short_while have r: "r = Inr 0" and b: "buff s' = Some (short_table, 9)"
    and p: "paths s' = [\<lparr>pt_ex_loc = 20, pt_parent = 1, pt_name = ''A'', pt_ex_len = None\<rparr>]"
    by simp_all
  have "init_path_table (replicate 2048 (CHR 0x00) @ short_table) one_entry_iso = (Inr (), s')"
    by (simp add: init_path_table_def bnd_def pvd_get_Some [OF 1] pvd_get_Some [OF 2]
          short_sector w r ret_def)
  with 1 3 b p show ?thesis by simp
qed

subsection \<open>The record a search returns\<close>

lemma returnsD: "returns f Q \<Longrightarrow> f s = (Inr x, s') \<Longrightarrow> Q x"
  unfolding returns_def by blast

lemma returns_bnd:
  assumes "returns f P" and "\<And>x. P x \<Longrightarrow> returns (g x) Q"
  shows "returns (bnd f g) Q"
  unfolding returns_def
proof (intro allI impI)
  fix s x s'
  assume "bnd f g s = (Inr x, s')"
  then obtain y s1 where 1: "f s = (Inr y, s1)" and 2: "g y s1 = (Inr x, s')"
    by (rule bnd_InrE)
  from returnsD [OF assms(1) 1] have "P y" .
  from returnsD [OF assms(2) [OF this] 2] show "Q x" .
qed

lemma returns_ret: "Q x \<Longrightarrow> returns (ret x) Q"
  by (simp add: returns_def ret_def)

lemma returns_raise: "returns (raise_exc e) Q"
  by (simp add: returns_def raise_exc_def)

lemma returns_any: "returns f (\<lambda>_. True)"
  by (simp add: returns_def)

lemma unpack_unsigned:
  assumes "unpack e c s = (Inr v, s')" and "\<not> is_signed c"
  shows "0 \<le> v"
  using assms
  by (auto simp: unpack_def Let_def struct_unpack_def decode_int_def ret_def raise_exc_def
           elim!: bnd_InrE split: if_splits)

lemma unpack_both_unsigned:
  assumes "unpack_both c s = (Inr v, s')" and "\<not> is_signed c"
  shows "0 \<le> v"
proof -
  from assms(1) obtain s1 where "unpack (Some Little) c s = (Inr v, s1)"
    unfolding unpack_both_def
    by (auto elim!: bnd_InrE simp: ret_def raise_exc_def split: if_splits)
  then show ?thesis using assms(2) by (rule unpack_unsigned)
qed

lemma unpack_record_extent:
  assumes "unpack_record read s = (Inr (r, Some d), s')"
  shows "0 \<le> ex_loc d \<and> 0 \<le> ex_len d"
proof -
  from assms obtain v1 v2 s1 s2 s3 s4 where
    "unpack_both Fmt_I s1 = (Inr v1, s2)" "unpack_both Fmt_I s3 = (Inr v2, s4)"
    "ex_loc d = v1" "ex_len d = v2"
    unfolding unpack_record_def Let_def
    by (elim bnd_InrE) (auto simp: ret_def split: if_splits elim!: bnd_InrE)
  then show ?thesis using unpack_both_unsigned by fastforce
qed


lemma returns_unpack_record:
  "returns (unpack_record read)
     (\<lambda>(r, data). (data = None \<longrightarrow> r = read + 1)
                  \<and> (\<forall>d. data = Some d \<longrightarrow> 0 \<le> ex_loc d \<and> 0 \<le> ex_len d))"
  unfolding returns_def
  using unpack_record_None unpack_record_extent by (auto split: prod.splits)

lemma returns_next:
  "returns (unpack_dir_children_next img (sector, read, r_self))
     (\<lambda>y. \<forall>d g'. y = Some (d, g') \<longrightarrow> 0 \<le> ex_loc d \<and> 0 \<le> ex_len d)"
proof (induction "case r_self of None \<Rightarrow> 0 | Some rs \<Rightarrow> nat (ex_len rs - read)"
         arbitrary: sector read rule: less_induct)
  case less
  let ?Q = "\<lambda>y. \<forall>d g'. y = Some (d, g') \<longrightarrow> 0 \<le> ex_loc d \<and> 0 \<le> ex_len d"
  show ?case
  proof (cases r_self)
    case None
    then show ?thesis by (subst next_unfold) (simp add: returns_raise)
  next
    case (Some rs)
    show ?thesis
    proof (cases "read < ex_len rs")
      case False
      with Some show ?thesis by (subst next_unfold) (simp add: returns_ret)
    next
      case True
      define sec where "sec = (if read mod 2048 = 0 then sector + 1 else sector)"
      define k :: "int \<times> dir_record option \<Rightarrow> (dir_record \<times> gen) option action"
        where "k = (\<lambda>(r, data).
                   case data of
                     None \<Rightarrow>
                       bnd (unpack_raw (2048 - r mod 2048))
                         (\<lambda>_. unpack_dir_children_next img
                                 (sec, r + (2048 - r mod 2048), r_self))
                   | Some d \<Rightarrow> ret (Some (d, (sec, r, r_self))))"
      have k: "returns (k x) ?Q"
        if "case x of (r, data) \<Rightarrow> (data = None \<longrightarrow> r = read + 1)
                  \<and> (\<forall>d. data = Some d \<longrightarrow> 0 \<le> ex_loc d \<and> 0 \<le> ex_len d)" for x
      proof (cases x)
        case (Pair r data)
        show ?thesis
        proof (cases data)
          case None
          with that Pair have r: "r = read + 1" by simp
          have "0 < 2048 - r mod 2048" by simp
          with r Some True
          have "returns (unpack_dir_children_next img (sec, r + (2048 - r mod 2048), r_self)) ?Q"
            by (intro less) simp
          then show ?thesis
            unfolding k_def Pair None
            by (auto intro!: returns_bnd [OF returns_any])
        next
          case (Some d)
          with that Pair show ?thesis unfolding k_def by (auto intro!: returns_ret)
        qed
      qed
      have inner: "returns (bnd (unpack_record read) k) ?Q"
        by (rule returns_bnd [OF returns_unpack_record]) (rule k)
      have outer: "returns (bnd (if read mod 2048 = 0
                                 then get_sector_file img (sector + 1) 2048 else ret ())
                             (\<lambda>_. bnd (unpack_record read) k)) ?Q"
        by (rule returns_bnd [OF returns_any]) (rule inner)
      have eq: "unpack_dir_children_next img (sector, read, r_self)
                  = bnd (if read mod 2048 = 0
                         then get_sector_file img (sector + 1) 2048 else ret ())
                      (\<lambda>_. bnd (unpack_record read) k)"
        unfolding k_def sec_def Some by (subst next_unfold) (simp add: True)
      show ?thesis unfolding eq by (rule outer)
    qed
  qed
qed




subsection \<open>The example image\<close>

lemmas decode_defs =
  unpack_record_def bnd_def ret_def raise_exc_def unpack_def buff_read_def struct_unpack_def
  decode_int_def bytes_nat_def unpack_both_def unpack_dir_datetime_def datetime_seconds_def
  unpack_string_def unpack_raw_def str_rstrip_def Let_def arg_or_zero_def
  ymd2ord_def days_before_year_def days_before_month_def days_in_month_def is_leap_def

lemmas example_bytes =
  example_dir_def example_self_def example_parent_def example_file_def




lemma example_record_file:
  "unpack_record 68 (s\<lparr>buff := Some (example_dir, 68)\<rparr>)
     = (Inr (116, Some example_meta), s\<lparr>buff := Some (example_dir, 116)\<rparr>)"
  by (simp add: example_bytes example_meta_def decode_defs)


lemma example_next:
  "unpack_dir_children_next example_img (18, 68, Some example_root)
       (s\<lparr>buff := Some (example_dir, 68)\<rparr>)
     = (Inr (Some (example_meta, (18, 116, Some example_root))),
        s\<lparr>buff := Some (example_dir, 116)\<rparr>)"
proof -
  have "ex_len example_root = 2048" by (simp add: example_root_def)
  then show ?thesis
    using example_record_file [of "s\<lparr>buff := Some (example_dir, 68)\<rparr>"]
    by (subst unpack_dir_children_next.simps) simp
qed




subsection \<open>A path of one segment\<close>

lemma nth_child_extent:
  "nth_child img n g s = (Inr (Some (f, g')), s') \<Longrightarrow> 0 \<le> ex_loc f \<and> 0 \<le> ex_len f"
proof (induction n arbitrary: g s)
  case 0
  obtain sector read r_self where g: "g = (sector, read, r_self)" by (cases g) auto
  from 0 have "unpack_dir_children_next img (sector, read, r_self) s
                 = (Inr (Some (f, g')), s')"
    by (simp add: g)
  from returnsD [OF returns_next this] show ?case by (cases g') auto
next
  case (Suc n)
  from Suc.prems obtain d g1 s1 where "nth_child img n g1 s1 = (Inr (Some (f, g')), s')"
    by (auto split: prod.splits sum.splits option.splits)
  then show ?case by (rule Suc.IH)
qed

lemma search_for_found:
  assumes "search_dir_children_for img trm (sector, read, r_self) s = (Inr f, s')"
  shows "\<exists>n g'. nth_child img n (sector, read, r_self) s = (Inr (Some (f, g')), s')
           \<and> name f = trm
           \<and> (\<forall>m<n. \<forall>d g2 s2. nth_child img m (sector, read, r_self) s = (Inr (Some (d, g2)), s2)
                 \<longrightarrow> name d \<noteq> trm)"
  using assms
proof (induction "case r_self of None \<Rightarrow> 0 | Some rs \<Rightarrow> nat (ex_len rs - read)"
         arbitrary: sector read s rule: less_induct)
  case less
  from less.prems obtain y s1 where
    n: "unpack_dir_children_next img (sector, read, r_self) s = (Inr y, s1)" and
    r: "(case y of
           None \<Rightarrow> raise_exc (ISO9660IOError (ArgName trm))
         | Some (e, g') \<Rightarrow>
             if name e = trm then ret e else search_dir_children_for img trm g') s1
        = (Inr f, s')"
    by (subst (asm) search_for_unfold) (erule bnd_InrE)
  from r obtain d sector' read' r_self' where y: "y = Some (d, (sector', read', r_self'))"
    by (cases y) (auto simp: raise_exc_def)
  from unpack_dir_children_next_yield [OF n [unfolded y]]
  have dec: "r_self' = r_self" "read < read'" "\<exists>rs. r_self = Some rs \<and> read < ex_len rs"
    by simp_all
  show ?case
  proof (cases "name d = trm")
    case True
    with r y have "f = d" "s' = s1" by (simp_all add: ret_def)
    with n y True have "nth_child img 0 (sector, read, r_self) s
                          = (Inr (Some (f, (sector', read', r_self'))), s') \<and> name f = trm"
      by simp
    then show ?thesis by (intro exI [of _ 0]) auto
  next
    case False
    with r y dec have "search_dir_children_for img trm (sector', read', r_self) s1 = (Inr f, s')"
      by simp
    moreover have "(case r_self of None \<Rightarrow> 0 | Some rs \<Rightarrow> nat (ex_len rs - read'))
                   < (case r_self of None \<Rightarrow> 0 | Some rs \<Rightarrow> nat (ex_len rs - read))"
      using dec by auto
    ultimately obtain k g' where
      k: "nth_child img k (sector', read', r_self) s1 = (Inr (Some (f, g')), s')"
         "name f = trm"
         "\<forall>m<k. \<forall>d g2 s2. nth_child img m (sector', read', r_self) s1 = (Inr (Some (d, g2)), s2)
                 \<longrightarrow> name d \<noteq> trm"
      using less.hyps by blast
    have step: "nth_child img (Suc m) (sector, read, r_self) s
                  = nth_child img m (sector', read', r_self) s1" for m
      using n y dec by simp
    have "\<forall>m<Suc k. \<forall>d g2 s2. nth_child img m (sector, read, r_self) s = (Inr (Some (d, g2)), s2)
                 \<longrightarrow> name d \<noteq> trm"
    proof (intro allI impI)
      fix m d' g2 s2
      assume m: "m < Suc k"
        and c: "nth_child img m (sector, read, r_self) s = (Inr (Some (d', g2)), s2)"
      show "name d' \<noteq> trm"
      proof (cases m)
        case 0
        with c n y False show ?thesis by simp
      next
        case (Suc m')
        with c step have "nth_child img m' (sector', read', r_self) s1 = (Inr (Some (d', g2)), s2)"
          by simp
        moreover from m Suc have "m' < k" by simp
        ultimately show ?thesis using k(3) by blast
      qed
    qed
    with k(1,2) step show ?thesis by (intro exI [of _ "Suc k"] exI [of _ g']) simp
  qed
qed

lemma first_found_search:
  assumes "nth_child img n g s = (Inr (Some (f, g')), s')" and "name f = trm"
    and "\<forall>m<n. \<forall>d g2 s2. nth_child img m g s = (Inr (Some (d, g2)), s2) \<longrightarrow> name d \<noteq> trm"
  shows "search_dir_children_for img trm g s = (Inr f, s')"
  using assms
proof (induction n arbitrary: g s)
  case 0
  then show ?case by (subst search_dir_children_for.simps) simp
next
  case (Suc n)
  from Suc.prems(1) obtain d g1 s1 where
    nx: "unpack_dir_children_next img g s = (Inr (Some (d, g1)), s1)" and
    rest: "nth_child img n g1 s1 = (Inr (Some (f, g')), s')"
    by (auto split: prod.splits sum.splits option.splits)
  from nx have "nth_child img 0 g s = (Inr (Some (d, g1)), s1)" by simp
  with Suc.prems(3) have d: "name d \<noteq> trm" by blast
  have "\<forall>m<n. \<forall>d g2 s2. nth_child img m g1 s1 = (Inr (Some (d, g2)), s2) \<longrightarrow> name d \<noteq> trm"
  proof (intro allI impI)
    fix m d' g2 s2
    assume "m < n" and "nth_child img m g1 s1 = (Inr (Some (d', g2)), s2)"
    with nx have "Suc m < Suc n"
      and "nth_child img (Suc m) g s = (Inr (Some (d', g2)), s2)" by simp_all
    with Suc.prems(3) show "name d' \<noteq> trm" by blast
  qed
  from Suc.IH [OF rest Suc.prems(2) this]
  have "search_dir_children_for img trm g1 s1 = (Inr f, s')" .
  with nx d show ?case by (subst search_dir_children_for.simps) simp
qed

lemma read_extent:
  assumes "0 \<le> ex_loc f" and "0 \<le> ex_len f"
  shows "bnd (get_sector_file img (ex_loc f) (ex_len f)) (\<lambda>_. unpack_raw (ex_len f)) s
           = (Inr (take (nat (ex_len f)) (drop (nat (ex_loc f) * 2048) img)),
              s\<lparr>buff := Some (take (nat (ex_len f)) (drop (nat (ex_loc f) * 2048) img),
                               length (take (nat (ex_len f)) (drop (nat (ex_loc f) * 2048) img)))\<rparr>)"
  using assms
  by (simp add: bnd_def get_sector_file_def SECTOR_SIZE_def Let_def nat_mult_distrib
        unpack_raw_def buff_read_def min_def)

text \<open>
  Claim C10. When the requested path has one segment after \<open>upper\<close>, \<open>strip\<close> and
  \<open>split\<close>, the parent directory is the root record \<open>self._root\<close> that the constructor
  took from the volume descriptor, and \<open>get_file\<close> is the search among the children of
  that record followed by the read of the extent found. It returns bytes exactly when
  the iteration over the children of the root record, started at the root's extent,
  yields a record named as the segment; the bytes are the extent of the first such
  record. Neither strategy runs: the path table is not read and not written, so with
  any other table in its place the call returns the same and leaves that table as it
  found it.
\<close>

theorem get_file_single_segment:
  assumes "split_path path = [seg]" and "root s = Some r"
  shows "(get_file img path s = (Inr bs, s') \<longleftrightarrow>
            (\<exists>g0 s0 n f g1 s1.
               unpack_dir_children_start img (IsRecord r) s = (Inr g0, s0)
               \<and> nth_child img n g0 s0 = (Inr (Some (f, g1)), s1)
               \<and> name f = seg
               \<and> (\<forall>m<n. \<forall>d g2 s2. nth_child img m g0 s0 = (Inr (Some (d, g2)), s2)
                     \<longrightarrow> name d \<noteq> seg)
               \<and> bs = take (nat (ex_len f)) (drop (nat (ex_loc f) * 2048) img)
               \<and> s' = s1\<lparr>buff := Some (bs, length bs)\<rparr>))
         \<and> get_file img path (s\<lparr>paths := ps\<rparr>)
             = (fst (get_file img path s), (snd (get_file img path s))\<lparr>paths := ps\<rparr>)"
proof -
  let ?tail = "\<lambda>d. bnd (search_dir_children img d seg) (\<lambda>f.
           bnd (get_sector_file img (ex_loc f) (ex_len f)) (\<lambda>_.
           unpack_raw (ex_len f)))"
  have eq: "get_file img path t = ?tail (root_ref t) t" for t
    using assms(1) by (simp add: get_file_def Let_def bnd_def)
  have rr: "root_ref s = IsRecord r" "root_ref (s\<lparr>paths := ps\<rparr>) = IsRecord r"
    using assms(2) by (simp_all add: root_ref_def)
  have frame: "get_file img path (s\<lparr>paths := ps\<rparr>)
             = (fst (get_file img path s), (snd (get_file img path s))\<lparr>paths := ps\<rparr>)"
    using buffer_only_paths [OF buffer_only_tail [where img = img and parent_dir = "IsRecord r" and filename = seg], where s = s and ps = ps]
    by (simp add: eq rr)
  have fwd: "\<exists>g0 s0 n f g1 s1.
               unpack_dir_children_start img (IsRecord r) s = (Inr g0, s0)
               \<and> nth_child img n g0 s0 = (Inr (Some (f, g1)), s1)
               \<and> name f = seg
               \<and> (\<forall>m<n. \<forall>d g2 s2. nth_child img m g0 s0 = (Inr (Some (d, g2)), s2)
                     \<longrightarrow> name d \<noteq> seg)
               \<and> bs = take (nat (ex_len f)) (drop (nat (ex_loc f) * 2048) img)
               \<and> s' = s1\<lparr>buff := Some (bs, length bs)\<rparr>"
    if a: "get_file img path s = (Inr bs, s')"
  proof -
    from a obtain f s1 where
      srch: "search_dir_children img (IsRecord r) seg s = (Inr f, s1)" and
      rd: "bnd (get_sector_file img (ex_loc f) (ex_len f)) (\<lambda>_. unpack_raw (ex_len f)) s1
             = (Inr bs, s')"
      unfolding eq rr by (erule bnd_InrE)
    from srch obtain g0 s0 where
      st: "unpack_dir_children_start img (IsRecord r) s = (Inr g0, s0)" and
      sf: "search_dir_children_for img seg g0 s0 = (Inr f, s1)"
      unfolding search_dir_children_def by (erule bnd_InrE)
    obtain sector read r_self where g0: "g0 = (sector, read, r_self)" by (cases g0) auto
    from search_for_found [OF sf [unfolded g0]] obtain n g1 where
      k: "nth_child img n g0 s0 = (Inr (Some (f, g1)), s1)" "name f = seg"
         "\<forall>m<n. \<forall>d g2 s2. nth_child img m g0 s0 = (Inr (Some (d, g2)), s2) \<longrightarrow> name d \<noteq> seg"
      unfolding g0 by blast
    from nth_child_extent [OF k(1)] have ext: "0 \<le> ex_loc f" "0 \<le> ex_len f" by simp_all
    define t where "t = take (nat (ex_len f)) (drop (nat (ex_loc f) * 2048) img)"
    note e = trans [OF rd [symmetric] read_extent [OF ext, of img s1, folded t_def]]
    from e have "bs = t" by simp
    moreover from e have "s' = s1\<lparr>buff := Some (t, length t)\<rparr>" by simp
    ultimately have "bs = take (nat (ex_len f)) (drop (nat (ex_loc f) * 2048) img)"
      and "s' = s1\<lparr>buff := Some (bs, length bs)\<rparr>"
      by (simp_all add: t_def)
    with st k show ?thesis by blast
  qed
  have bwd: "get_file img path s = (Inr bs, s')"
    if st: "unpack_dir_children_start img (IsRecord r) s = (Inr g0, s0)"
      and k: "nth_child img n g0 s0 = (Inr (Some (f, g1)), s1)" "name f = seg"
         "\<forall>m<n. \<forall>d g2 s2. nth_child img m g0 s0 = (Inr (Some (d, g2)), s2) \<longrightarrow> name d \<noteq> seg"
      and bs: "bs = take (nat (ex_len f)) (drop (nat (ex_loc f) * 2048) img)"
      and s': "s' = s1\<lparr>buff := Some (bs, length bs)\<rparr>"
    for g0 s0 n f g1 s1
  proof -
    from first_found_search [OF k]
    have "search_dir_children_for img seg g0 s0 = (Inr f, s1)" .
    with st have srch: "search_dir_children img (IsRecord r) seg s = (Inr f, s1)"
      by (simp add: search_dir_children_def bnd_def)
    from nth_child_extent [OF k(1)] have ext: "0 \<le> ex_loc f" "0 \<le> ex_len f" by simp_all
    from read_extent [OF ext, of img s1, folded bs] s'
    have "bnd (get_sector_file img (ex_loc f) (ex_len f)) (\<lambda>_. unpack_raw (ex_len f)) s1
             = (Inr bs, s')" by simp
    with srch show ?thesis unfolding eq rr by (simp add: bnd_def)
  qed
  from fwd bwd frame show ?thesis by blast
qed


lemmas two_files_bytes =
  two_files_dir_def example_self_def example_parent_def example_other_def example_file_def

lemma two_files_sector:
  "get_sector_file two_files_img 18 2048 s = (Inr (), s\<lparr>buff := Some (two_files_dir, 0)\<rparr>)"
  by (simp add: get_sector_file_def SECTOR_SIZE_def two_files_img_def two_files_bytes)

lemma two_files_record_self:
  "unpack_record 0 (s\<lparr>buff := Some (two_files_dir, 0)\<rparr>)
     = (Inr (34, Some example_root), s\<lparr>buff := Some (two_files_dir, 34)\<rparr>)"
  by (simp add: two_files_bytes example_root_def decode_defs)

lemma two_files_record_parent:
  "unpack_record 34 (s\<lparr>buff := Some (two_files_dir, 34)\<rparr>)
     = (Inr (68, Some example_dotdot), s\<lparr>buff := Some (two_files_dir, 68)\<rparr>)"
  by (simp add: two_files_bytes example_root_def example_dotdot_def decode_defs)

lemma two_files_record_a:
  "unpack_record 68 (s\<lparr>buff := Some (two_files_dir, 68)\<rparr>)
     = (Inr (104, Some example_a), s\<lparr>buff := Some (two_files_dir, 104)\<rparr>)"
  by (simp add: two_files_bytes example_a_def decode_defs)

lemma two_files_record_meta:
  "unpack_record 104 (s\<lparr>buff := Some (two_files_dir, 104)\<rparr>)
     = (Inr (152, Some example_meta), s\<lparr>buff := Some (two_files_dir, 152)\<rparr>)"
  by (simp add: two_files_bytes example_meta_def decode_defs)

lemma two_files_start:
  "unpack_dir_children_start two_files_img (IsRecord example_root) s
     = (Inr (18, 68, Some example_root), s\<lparr>buff := Some (two_files_dir, 68)\<rparr>)"
proof -
  have "ex_loc example_root = 18" by (simp add: example_root_def)
  then show ?thesis
    using two_files_record_parent [of "s\<lparr>buff := Some (two_files_dir, 0)\<rparr>"]
    by (simp add: unpack_dir_children_start_def bnd_def ret_def two_files_sector
          two_files_record_self)
qed

lemma two_files_next_a:
  "unpack_dir_children_next two_files_img (18, 68, Some example_root)
       (s\<lparr>buff := Some (two_files_dir, 68)\<rparr>)
     = (Inr (Some (example_a, (18, 104, Some example_root))),
        s\<lparr>buff := Some (two_files_dir, 104)\<rparr>)"
proof -
  have "ex_len example_root = 2048" by (simp add: example_root_def)
  then show ?thesis
    using two_files_record_a [of "s\<lparr>buff := Some (two_files_dir, 68)\<rparr>"]
    by (subst unpack_dir_children_next.simps) simp
qed

lemma two_files_next_meta:
  "unpack_dir_children_next two_files_img (18, 104, Some example_root)
       (s\<lparr>buff := Some (two_files_dir, 104)\<rparr>)
     = (Inr (Some (example_meta, (18, 152, Some example_root))),
        s\<lparr>buff := Some (two_files_dir, 152)\<rparr>)"
proof -
  have "ex_len example_root = 2048" by (simp add: example_root_def)
  then show ?thesis
    using two_files_record_meta [of "s\<lparr>buff := Some (two_files_dir, 104)\<rparr>"]
    by (subst unpack_dir_children_next.simps) simp
qed

lemma two_files_extent:
  "take (nat (ex_len example_meta)) (drop (nat (ex_loc example_meta) * 2048) two_files_img)
     = ''<xml>''"
  by (simp add: example_meta_def two_files_img_def two_files_bytes)

text \<open>
  On the second image \<open>/metadata.xml\<close> is found as the second child of the root
  directory, after \<open>A\<close>, whatever the path table holds.
\<close>

theorem get_file_single_segment_witness:
  "split_path ''/metadata.xml'' = [''METADATA.XML'']
   \<and> root (example_iso\<lparr>paths := tbl_deep\<rparr>) = Some example_root
   \<and> get_file two_files_img ''/metadata.xml'' (example_iso\<lparr>paths := tbl_deep\<rparr>)
       = (Inr ''<xml>'', example_iso\<lparr>paths := tbl_deep, buff := Some (''<xml>'', 5)\<rparr>)"
proof -
  let ?s = "example_iso\<lparr>paths := tbl_deep\<rparr>"
  let ?g = "(18, 68, Some example_root)"
  let ?t = "?s\<lparr>buff := Some (two_files_dir, 68)\<rparr>"
  have r: "root ?s = Some example_root" by (simp add: example_iso_def)
  have n0: "nth_child two_files_img 0 ?g ?t
              = (Inr (Some (example_a, (18, 104, Some example_root))),
                 ?s\<lparr>buff := Some (two_files_dir, 104)\<rparr>)"
    using two_files_next_a [of ?s] by simp
  have n1: "nth_child two_files_img 1 ?g ?t
              = (Inr (Some (example_meta, (18, 152, Some example_root))),
                 ?s\<lparr>buff := Some (two_files_dir, 152)\<rparr>)"
    using two_files_next_a [of ?s] two_files_next_meta [of ?s] by simp
  have nm: "name example_meta = ''METADATA.XML''" "name example_a \<noteq> ''METADATA.XML''"
    by (simp_all add: example_meta_def example_a_def)
  have before: "\<forall>m<1. \<forall>d g2 s2. nth_child two_files_img m ?g ?t = (Inr (Some (d, g2)), s2)
                  \<longrightarrow> name d \<noteq> ''METADATA.XML''"
    using n0 nm by simp
  have "\<exists>g0 s0 n f g1 s1.
          unpack_dir_children_start two_files_img (IsRecord example_root) ?s = (Inr g0, s0)
          \<and> nth_child two_files_img n g0 s0 = (Inr (Some (f, g1)), s1)
          \<and> name f = ''METADATA.XML''
          \<and> (\<forall>m<n. \<forall>d g2 s2. nth_child two_files_img m g0 s0 = (Inr (Some (d, g2)), s2)
                \<longrightarrow> name d \<noteq> ''METADATA.XML'')
          \<and> ''<xml>'' = take (nat (ex_len f)) (drop (nat (ex_loc f) * 2048) two_files_img)
          \<and> ?s\<lparr>buff := Some (''<xml>'', 5)\<rparr> = s1\<lparr>buff := Some (''<xml>'', length ''<xml>'')\<rparr>"
    using two_files_start [of ?s] n1 nm(1) before two_files_extent
    by (intro exI [of _ ?g] exI [of _ ?t] exI [of _ 1] exI [of _ example_meta]
          exI [of _ "(18, 152, Some example_root)"]
          exI [of _ "?s\<lparr>buff := Some (two_files_dir, 152)\<rparr>"]) simp
  with get_file_single_segment [OF split_path_metadata r, of two_files_img "''<xml>''"
         "?s\<lparr>buff := Some (''<xml>'', 5)\<rparr>"]
  have "get_file two_files_img ''/metadata.xml'' ?s = (Inr ''<xml>'', ?s\<lparr>buff := Some (''<xml>'', 5)\<rparr>)"
    by blast
  with r split_path_metadata show ?thesis by simp
qed

subsection \<open>The version suffix\<close>

lemma unpack_both_Inr:
  assumes "unpack_both c s = (Inr v, s')" and "buff s = Some (d, p)"
  shows "p + 2 * calcsize c \<le> length d \<and> s' = s\<lparr>buff := Some (d, p + 2 * calcsize c)\<rparr>"
proof -
  from assms(1) obtain a b s1 where
    1: "unpack (Some Little) c s = (Inr a, s1)" and
    2: "unpack (Some Big) c s1 = (Inr b, s')"
    unfolding unpack_both_def
    by (auto elim!: bnd_InrE simp: ret_def raise_exc_def split: if_splits)
  from unpack_Inr [OF 1 assms(2)] have s1: "s1 = s\<lparr>buff := Some (d, p + calcsize c)\<rparr>" by simp
  then have "buff s1 = Some (d, p + calcsize c)" by simp
  from unpack_Inr [OF 2 this] s1 show ?thesis by simp
qed

lemma unpack_dir_datetime_Inr:
  assumes "unpack_dir_datetime s = (Inr v, s')" and "buff s = Some (d, p)"
  shows "s' = s\<lparr>buff := Some (d, p + min 7 (length d - p))\<rparr>"
  using assms
  by (auto simp: unpack_dir_datetime_def unpack_raw_def buff_read_def Let_def ret_def
                 raise_exc_def min_def
           elim!: bnd_InrE split: if_splits sum.splits)

lemma str_split_not_Nil: "str_split c s \<noteq> []"
  by (induction s) (auto split: list.splits)

lemma hd_str_split:
  "c \<notin> set base \<Longrightarrow> hd (str_split c (base @ c # rest)) = base"
  by (induction base) (auto simp: str_split_not_Nil split: list.splits)

lemma str_rstrip_sep:
  "c \<noteq> sp \<Longrightarrow> str_rstrip sp (base @ c # v) = base @ c # str_rstrip sp v"
  by (simp add: str_rstrip_def dropWhile_append)

lemma take1_drop: "n < length xs \<Longrightarrow> take (Suc 0) (drop n xs) = [xs ! n]"
  by (simp add: Cons_nth_drop_Suc [symmetric])

text \<open>
  Claim C8. A record whose stored name is a name without \<open>;\<close>, then \<open>;\<close>, then a
  version is decoded with the name alone: \<open>_unpack_record\<close> keeps what precedes the first
  \<open>;\<close>. (The one-byte name \<open>0x00\<close>, which the code turns into the empty name, is the
  directory's own entry and is left aside.) The child iterator yields the record as
  decoded.
\<close>

theorem unpack_record_strips_version:
  assumes ok: "unpack_record read s = (Inr (r, Some d), s')"
    and b: "buff s = Some (dat, p)"
    and stored: "name_field dat p = base @ CHR '';'' # version"
    and base: "CHR '';'' \<notin> set base" "base \<noteq> [CHR 0x00]"
  shows "name d = base"
proof -
  from ok obtain l0 l1 v1 v2 dt fl un gp sq l2 nm
      s1 s2 s3 s4 s5 s6 s7 s8 s9 s10 s11 where
    u1: "unpack None Fmt_B s = (Inr l0, s1)" and
    u2: "unpack None Fmt_B s1 = (Inr l1, s2)" and
    u3: "unpack_both Fmt_I s2 = (Inr v1, s3)" and
    u4: "unpack_both Fmt_I s3 = (Inr v2, s4)" and
    u5: "unpack_dir_datetime s4 = (Inr dt, s5)" and
    u6: "unpack None Fmt_B s5 = (Inr fl, s6)" and
    u7: "unpack None Fmt_B s6 = (Inr un, s7)" and
    u8: "unpack None Fmt_B s7 = (Inr gp, s8)" and
    u9: "unpack_both Fmt_h s8 = (Inr sq, s9)" and
    u10: "unpack None Fmt_B s9 = (Inr l2, s10)" and
    u11: "unpack_string l2 s10 = (Inr nm, s11)" and
    nm: "name d = (if hd (str_split (CHR '';'') nm) = [CHR 0x00] then []
                   else hd (str_split (CHR '';'') nm))"
    unfolding unpack_record_def Let_def
    by (elim bnd_InrE) (auto simp: ret_def split: if_splits elim!: bnd_InrE)
  from unpack_Inr [OF u1 b] have b1: "buff s1 = Some (dat, p + 1)" by simp
  from unpack_Inr [OF u2 b1] have b2: "buff s2 = Some (dat, p + 2)" by simp
  from unpack_both_Inr [OF u3 b2] have b3: "buff s3 = Some (dat, p + 10)" by simp
  from unpack_both_Inr [OF u4 b3] have b4: "buff s4 = Some (dat, p + 18)"
    and le18: "p + 18 \<le> length dat" by simp_all
  from unpack_dir_datetime_Inr [OF u5 b4]
  have b5: "buff s5 = Some (dat, p + 18 + min 7 (length dat - (p + 18)))" by simp
  from unpack_Inr [OF u6 b5] have "p + 18 + min 7 (length dat - (p + 18)) + 1 \<le> length dat"
    by simp
  then have "min 7 (length dat - (p + 18)) = 7" unfolding min_def by (simp split: if_splits)
  with unpack_Inr [OF u6 b5] have b6: "buff s6 = Some (dat, p + 26)" by simp
  from unpack_Inr [OF u7 b6] have b7: "buff s7 = Some (dat, p + 27)" by simp
  from unpack_Inr [OF u8 b7] have b8: "buff s8 = Some (dat, p + 28)" by simp
  from unpack_both_Inr [OF u9 b8] have b9: "buff s9 = Some (dat, p + 32)" by simp
  from unpack_Inr [OF u10 b9] have le33: "p + 33 \<le> length dat"
    and b10: "buff s10 = Some (dat, p + 33)"
    and l2: "l2 = decode_int Little Fmt_B (take 1 (drop (p + 32) dat))"
    by simp_all
  from le33 have "take 1 (drop (p + 32) dat) = [dat ! (p + 32)]"
    using take1_drop [of "p + 32" dat] by simp
  with l2 have l2': "l2 = int (of_char (dat ! (p + 32)))"
    by (simp add: decode_int_def bytes_nat_def)
  then have "0 \<le> l2" by simp
  from unpack_string_Some [OF b10 this] u11 l2'
  have "nm = str_rstrip (CHR '' '') (name_field dat p)"
    by (simp add: name_field_def)
  with stored have "nm = base @ CHR '';'' # str_rstrip (CHR '' '') version"
    by (simp add: str_rstrip_sep)
  with base have "hd (str_split (CHR '';'') nm) = base"
    by (simp add: hd_str_split)
  with nm base show ?thesis by simp
qed

text \<open>
  In the example directory the record stored as \<open>METADATA.XML;1\<close> is the first child
  the iterator yields, under the name \<open>METADATA.XML\<close>.
\<close>

theorem unpack_record_strips_version_witness:
  "name_field example_dir 68 = ''METADATA.XML'' @ CHR '';'' # ''1''
   \<and> fst (unpack_dir_children_next example_img (18, 68, Some example_root)
             (new_iso\<lparr>buff := Some (example_dir, 68)\<rparr>))
       = Inr (Some (example_meta, (18, 116, Some example_root)))
   \<and> name example_meta = ''METADATA.XML''"
proof -
  have nf: "name_field example_dir 68 = ''METADATA.XML'' @ CHR '';'' # ''1''"
    by (simp add: name_field_def example_bytes)
  have b: "buff (new_iso\<lparr>buff := Some (example_dir, 68)\<rparr>) = Some (example_dir, 68)"
    by simp
  have "name example_meta = ''METADATA.XML''"
    by (rule unpack_record_strips_version [OF example_record_file b nf]) simp_all
  with nf show ?thesis by (simp add: example_next)
qed

end
